theory Spec2Isabelle
  imports Main "HOL-Library.Word"
begin

unbundle bit_operations_syntax

section \<open>Bytes, C strings and big-endian words\<close>

text \<open>
  The C source works on \<^verbatim>\<open>char\<close> buffers. A buffer is a \<^typ>\<open>string\<close> (a list of
  8-bit characters); a C string inside a buffer ends at the first NUL. A \<^verbatim>\<open>strbuf\<close>
  holds \<open>len\<close> bytes followed by a terminating NUL, so reading \<open>buf[len]\<close> is allowed
  and yields NUL, while reading further is outside the buffer.
\<close>

datatype fault =
    OutOfBounds   \<comment> \<open>a read outside the memory the function was given\<close>
  | NullPointer   \<comment> \<open>a \<open>NULL\<close> pointer handed to code that reads through it\<close>
  | BUG_more_entries  \<comment> \<open>\<^verbatim>\<open>BUG("fsmonitor_dirty has more entries than the index")\<close>: the process aborts\<close>

definition NUL :: char where
  "NUL = CHR 0x00"

definition cstr :: "string \<Rightarrow> string" where
  \<comment> \<open>the C string that starts a strbuf: the bytes before the first NUL (or before the terminator)\<close>
  "cstr buf = takeWhile (\<lambda>c. c \<noteq> NUL) buf"

definition cstr_mem :: "string \<Rightarrow> nat \<Rightarrow> string option" where
  \<comment> \<open>the C string at an offset of raw memory; there is no terminator to rely on\<close>
  "cstr_mem mem off =
     (if NUL \<in> set (drop off mem) then Some (takeWhile (\<lambda>c. c \<noteq> NUL) (drop off mem)) else None)"

definition buf_at :: "string \<Rightarrow> nat \<Rightarrow> char option" where
  \<comment> \<open>\<^verbatim>\<open>sb->buf[i]\<close> of a strbuf\<close>
  "buf_at buf i =
     (if i < length buf then Some (buf ! i) else if i = length buf then Some NUL else None)"

definition starts_with :: "string \<Rightarrow> string \<Rightarrow> bool" where
  \<comment> \<open>\<^verbatim>\<open>starts_with(str, prefix)\<close>\<close>
  "starts_with str pfx = (take (length pfx) str = pfx)"

definition put_be32 :: "32 word \<Rightarrow> string" where
  \<comment> \<open>the four bytes \<^verbatim>\<open>put_be32\<close> stores, most significant first\<close>
  "put_be32 v =
     [char_of (unat (drop_bit 24 v)), char_of (unat (drop_bit 16 v)),
      char_of (unat (drop_bit 8 v)), char_of (unat v)]"

definition get_be32 :: "string \<Rightarrow> nat \<Rightarrow> 32 word option" where
  \<comment> \<open>\<^verbatim>\<open>get_be32(mem + off)\<close>; \<open>None\<close> when the four bytes are not all inside \<open>mem\<close>\<close>
  "get_be32 mem off =
     (case take 4 (drop off mem) of
        [p0, p1, p2, p3] \<Rightarrow>
          Some (push_bit 24 (of_char p0) OR push_bit 16 (of_char p1) OR
                push_bit 8 (of_char p2) OR of_char p3)
      | _ \<Rightarrow> None)"

definition get_be64 :: "string \<Rightarrow> nat \<Rightarrow> 64 word option" where
  \<comment> \<open>\<^verbatim>\<open>get_be64(mem + off)\<close>\<close>
  "get_be64 mem off =
     (case take 8 (drop off mem) of
        [p0, p1, p2, p3, p4, p5, p6, p7] \<Rightarrow>
          Some (push_bit 56 (of_char p0) OR push_bit 48 (of_char p1) OR
                push_bit 40 (of_char p2) OR push_bit 32 (of_char p3) OR
                push_bit 24 (of_char p4) OR push_bit 16 (of_char p5) OR
                push_bit 8 (of_char p6) OR of_char p7)
      | _ \<Rightarrow> None)"

function dec :: "nat \<Rightarrow> string" where
  \<comment> \<open>\<^verbatim>\<open>"%"PRIu64\<close>: decimal digits, no sign, no padding\<close>
  "dec n = (if n < 10 then [char_of (48 + n)] else dec (n div 10) @ [char_of (48 + n mod 10)])"
  by pat_completeness auto
termination
  by (relation "measure id") auto

declare dec.simps [simp del]

section \<open>The index as this file sees it\<close>

text \<open>
  Modelled from the spec: \<^verbatim>\<open>cache.h\<close> is missing. An index is an ordered sequence of
  cache entries, each with a path and a flag word; the flag words are C
  \<^verbatim>\<open>unsigned int\<close>, and \<open>CE_REMOVE\<close>, \<open>CE_FSMONITOR_VALID\<close> and \<open>FSMONITOR_CHANGED\<close> are each
  a single bit (the values are those of git's \<^verbatim>\<open>cache.h\<close>).
\<close>

definition CE_REMOVE :: "32 word" where
  "CE_REMOVE = push_bit 17 1"

definition CE_FSMONITOR_VALID :: "32 word" where
  "CE_FSMONITOR_VALID = push_bit 21 1"

definition FSMONITOR_CHANGED :: "32 word" where
  "FSMONITOR_CHANGED = push_bit 8 1"

record cache_entry =
  ce_name :: string
  ce_flags :: "32 word"

text \<open>
  Modelled from the spec: \<^verbatim>\<open>ewah/ewok.h\<close> is missing. The spec calls the dirty bitmap a
  growable bitset; it is a list of bits whose length is \<open>bit_size\<close>. Its compressed wire
  form is not part of this file: the serialiser and the reader are parameters of the
  codec functions below.
\<close>

type_synonym ewah_bitmap = "bool list"

definition ewah_new :: ewah_bitmap where
  "ewah_new = []"

definition bit_size :: "ewah_bitmap \<Rightarrow> nat" where
  "bit_size b = length b"

definition ewah_set :: "ewah_bitmap \<Rightarrow> nat \<Rightarrow> ewah_bitmap" where
  "ewah_set b i =
     (if i < length b then b[i := True] else b @ replicate (i - length b) False @ [True])"

fun ewah_each_bit_from :: "nat \<Rightarrow> ewah_bitmap \<Rightarrow> (nat \<Rightarrow> 's \<Rightarrow> fault + 's) \<Rightarrow> 's \<Rightarrow> fault + 's" where
  "ewah_each_bit_from pos [] callback payload = Inr payload"
| "ewah_each_bit_from pos (b # bs) callback payload =
     (if b then
        (case callback pos payload of
           Inl e \<Rightarrow> Inl e
         | Inr payload' \<Rightarrow> ewah_each_bit_from (Suc pos) bs callback payload')
      else ewah_each_bit_from (Suc pos) bs callback payload)"

definition ewah_each_bit :: "ewah_bitmap \<Rightarrow> (nat \<Rightarrow> 's \<Rightarrow> fault + 's) \<Rightarrow> 's \<Rightarrow> fault + 's" where
  \<comment> \<open>calls the callback on the position of every set bit, in increasing order\<close>
  "ewah_each_bit b callback payload = ewah_each_bit_from 0 b callback payload"

type_synonym ewah_serializer = "ewah_bitmap \<Rightarrow> string"
  \<comment> \<open>\<^verbatim>\<open>ewah_serialize_strbuf\<close>: the bytes appended to the strbuf\<close>

type_synonym ewah_reader = "string \<Rightarrow> nat \<Rightarrow> int \<times> ewah_bitmap"
  \<comment> \<open>\<^verbatim>\<open>ewah_read_mmap(bitmap, map, len)\<close>: the value kept in \<^verbatim>\<open>int ret\<close> (the number of
      bytes consumed, negative on error) and the bitmap it filled in\<close>

record untracked_cache =
  use_fsmonitor :: bool

record index_state =
  cache :: "cache_entry list"   \<comment> \<open>\<open>cache_nr\<close> is its length\<close>
  cache_changed :: "32 word"
  split_index :: bool   \<comment> \<open>whether the \<open>split_index\<close> pointer is set\<close>
  untracked :: "untracked_cache option"
  fsmonitor_last_update :: "string option"
  fsmonitor_dirty :: "ewah_bitmap option"
  fsmonitor_has_run_once :: bool
  uc_invalidated :: "string list"
    \<comment> \<open>the paths handed to \<^verbatim>\<open>untracked_cache_invalidate_path\<close> so far, oldest first\<close>

definition cache_nr :: "index_state \<Rightarrow> nat" where
  "cache_nr istate = length (cache istate)"

definition ce_valid :: "cache_entry \<Rightarrow> bool" where
  \<comment> \<open>\<^verbatim>\<open>ce->ce_flags & CE_FSMONITOR_VALID\<close>\<close>
  "ce_valid ce = (ce_flags ce AND CE_FSMONITOR_VALID \<noteq> 0)"

definition ce_removed :: "cache_entry \<Rightarrow> bool" where
  \<comment> \<open>\<^verbatim>\<open>ce->ce_flags & CE_REMOVE\<close>\<close>
  "ce_removed ce = (ce_flags ce AND CE_REMOVE \<noteq> 0)"

definition clear_valid :: "cache_entry \<Rightarrow> cache_entry" where
  \<comment> \<open>\<^verbatim>\<open>ce->ce_flags &= ~CE_FSMONITOR_VALID\<close>\<close>
  "clear_valid ce = ce\<lparr>ce_flags := ce_flags ce AND NOT CE_FSMONITOR_VALID\<rparr>"

definition set_valid :: "cache_entry \<Rightarrow> cache_entry" where
  \<comment> \<open>\<^verbatim>\<open>ce->ce_flags |= CE_FSMONITOR_VALID\<close>\<close>
  "set_valid ce = ce\<lparr>ce_flags := ce_flags ce OR CE_FSMONITOR_VALID\<rparr>"

section \<open>The extension codec\<close>

definition assert_index_minimum :: "index_state \<Rightarrow> nat \<Rightarrow> fault + unit" where
  "assert_index_minimum istate pos =
     (if pos > cache_nr istate then Inl BUG_more_entries else Inr ())"

definition fsmonitor_ewah_callback :: "nat \<Rightarrow> index_state \<Rightarrow> fault + index_state" where
  "fsmonitor_ewah_callback pos istate =
     (case assert_index_minimum istate (pos + 1) of
        Inl e \<Rightarrow> Inl e
      | Inr _ \<Rightarrow> Inr (istate\<lparr>cache := (cache istate)[pos := clear_valid (cache istate ! pos)]\<rparr>))"

datatype read_error =
    TooShort   \<comment> \<open>\<^verbatim>\<open>error("corrupt fsmonitor extension (too short)")\<close>\<close>
  | BadVersion "32 word"   \<comment> \<open>\<^verbatim>\<open>error("bad fsmonitor version %d")\<close>\<close>
  | EwahParse   \<comment> \<open>\<^verbatim>\<open>error("failed to parse ewah bitmap reading fsmonitor index extension")\<close>\<close>

definition read_token :: "string \<Rightarrow> 32 word \<Rightarrow> fault + (string \<times> nat) option" where
  \<comment> \<open>the version branch of the reader: the token and the offset behind it, \<open>None\<close> for an
      unknown version\<close>
  "read_token mem hdr_version =
     (if hdr_version = 1 then
        (case get_be64 mem 4 of
           None \<Rightarrow> Inl OutOfBounds
         | Some timestamp \<Rightarrow> Inr (Some (dec (unat timestamp), 4 + 8)))
      else if hdr_version = 2 then
        (case cstr_mem mem 4 of
           None \<Rightarrow> Inl OutOfBounds
         | Some last_update \<Rightarrow> Inr (Some (last_update, 4 + (length last_update + 1))))
      else Inr None)"

definition read_fsmonitor_extension ::
  "ewah_reader \<Rightarrow> index_state \<Rightarrow> string \<Rightarrow> nat \<Rightarrow> fault + (read_error option \<times> index_state)" where
  \<comment> \<open>\<open>mem\<close> is the memory from \<open>data\<close> on, \<open>sz\<close> the declared size of the extension; the
      result is the error reported (\<open>None\<close> for \<^verbatim>\<open>return 0\<close>) and the index afterwards\<close>
  "read_fsmonitor_extension rd istate mem sz =
     (if sz < 4 + 1 + 4 then Inr (Some TooShort, istate)
      else
        (case get_be32 mem 0 of
           None \<Rightarrow> Inl OutOfBounds
         | Some hdr_version \<Rightarrow>
            (case read_token mem hdr_version of
               Inl e \<Rightarrow> Inl e
             | Inr None \<Rightarrow> Inr (Some (BadVersion hdr_version), istate)
             | Inr (Some (last_update, index)) \<Rightarrow>
                (let istate1 = istate\<lparr>fsmonitor_last_update := Some last_update\<rparr> in
                 case get_be32 mem index of
                   None \<Rightarrow> Inl OutOfBounds
                 | Some ewah_size \<Rightarrow>
                    (let (ret, dirty) = rd (drop (index + 4) mem) (unat ewah_size) in
                     if word_of_int ret \<noteq> ewah_size then Inr (Some EwahParse, istate1)
                     else
                       (let istate2 = istate1\<lparr>fsmonitor_dirty := Some dirty\<rparr> in
                        if \<not> split_index istate2 then
                          (case assert_index_minimum istate2 (bit_size dirty) of
                             Inl e \<Rightarrow> Inl e
                           | Inr _ \<Rightarrow> Inr (None, istate2))
                        else Inr (None, istate2)))))))"

fun fill_loop :: "cache_entry list \<Rightarrow> nat \<Rightarrow> nat \<Rightarrow> ewah_bitmap \<Rightarrow> ewah_bitmap" where
  \<comment> \<open>the loop of \<open>fill_fsmonitor_bitmap\<close> over the entries from index \<open>i\<close> on\<close>
  "fill_loop [] i skipped dirty = dirty"
| "fill_loop (ce # ces) i skipped dirty =
     (if ce_removed ce then fill_loop ces (Suc i) (Suc skipped) dirty
      else if \<not> ce_valid ce then fill_loop ces (Suc i) skipped (ewah_set dirty (i - skipped))
      else fill_loop ces (Suc i) skipped dirty)"

definition fill_fsmonitor_bitmap :: "index_state \<Rightarrow> index_state" where
  "fill_fsmonitor_bitmap istate =
     istate\<lparr>fsmonitor_dirty := Some (fill_loop (cache istate) 0 0 ewah_new)\<rparr>"

definition write_fsmonitor_extension ::
  "ewah_serializer \<Rightarrow> string \<Rightarrow> index_state \<Rightarrow> fault + (string \<times> index_state)" where
  \<comment> \<open>the strbuf before and after. The bitmap and the token are read through their
      pointers. \<open>fixup\<close> and \<open>ewah_start\<close> are offsets into the strbuf, taken to fit their C
      types; the size word is the measured length as a \<^verbatim>\<open>uint32_t\<close>.\<close>
  "write_fsmonitor_extension ser sb istate =
     (case fsmonitor_dirty istate of
        None \<Rightarrow> Inl NullPointer
      | Some dirty \<Rightarrow>
         (case (if \<not> split_index istate then assert_index_minimum istate (bit_size dirty)
                else Inr ()) of
            Inl e \<Rightarrow> Inl e
          | Inr _ \<Rightarrow>
             (case fsmonitor_last_update istate of
                None \<Rightarrow> Inl NullPointer
              | Some last_update \<Rightarrow>
                 (let sb1 = sb @ put_be32 2;
                      sb2 = sb1 @ last_update @ [NUL];
                      fixup = length sb2;
                      sb3 = sb2 @ put_be32 0;
                      ewah_start = length sb3;
                      sb4 = sb3 @ ser dirty;
                      ewah_size = (word_of_nat (length sb4 - ewah_start) :: 32 word);
                      sb5 = take fixup sb4 @ put_be32 ewah_size @ drop (fixup + 4) sb4
                  in Inr (sb5, istate\<lparr>fsmonitor_dirty := None\<rparr>)))))"

section \<open>The provider and the configuration\<close>

text \<open>
  Modelled from the spec: the repository settings, the configuration loader, the clock,
  the hook process and the IPC channel live outside this file. The mode enumeration is
  \<open>{DISABLED, HOOK, IPC}\<close>. Each reading of the clock is a field; the hook is a function
  from its two arguments to its exit status and the output captured from it; the IPC
  query is a function from the token sent to its return value and the response. The mode
  is \<open>HOOK\<close> only when a hook path is configured, so the two \<^verbatim>\<open>assert\<close>s on the path in
  \<open>query_fsmonitor_hook\<close> hold. Trace calls have no effect on the index and are left out.
  Lengths and counts are natural numbers: a response is taken to be shorter than \<open>2^31\<close>
  bytes, so that the loop counters of the source do not wrap.
\<close>

datatype fsmonitor_mode = FSMONITOR_MODE_DISABLED | FSMONITOR_MODE_HOOK | FSMONITOR_MODE_IPC

record repository =
  fsmonitor_mode :: fsmonitor_mode
  fsmonitorhookversion :: "int option"
    \<comment> \<open>\<^verbatim>\<open>core.fsmonitorhookversion\<close>; \<open>None\<close> when \<^verbatim>\<open>git_config_get_int\<close> finds no value\<close>
  getnanotime :: "64 word"   \<comment> \<open>the clock as \<open>refresh_fsmonitor\<close> reads it\<close>
  attach_nanotime :: "64 word"   \<comment> \<open>the clock as \<open>initialize_fsmonitor_last_update\<close> reads it\<close>
  run_hook :: "int \<Rightarrow> string \<Rightarrow> int \<times> string"
  ipc_send_query :: "string \<Rightarrow> int \<times> string"

definition HOOK_INTERFACE_VERSION1 :: int where
  "HOOK_INTERFACE_VERSION1 = 1"

definition HOOK_INTERFACE_VERSION2 :: int where
  "HOOK_INTERFACE_VERSION2 = 2"

definition fsmonitor_hook_version :: "repository \<Rightarrow> int" where
  "fsmonitor_hook_version r =
     (case fsmonitorhookversion r of
        None \<Rightarrow> - 1
      | Some hook_version \<Rightarrow>
          if hook_version = HOOK_INTERFACE_VERSION1 \<or> hook_version = HOOK_INTERFACE_VERSION2
          then hook_version else - 1)"

record refresh_locals =
  query_success :: bool
  query_result :: string
  bol :: nat
  last_update_token :: string
  hook_version :: int
  hook_calls :: "(int \<times> string) list"
    \<comment> \<open>the arguments of every hook process started, oldest first\<close>

definition query_fsmonitor_hook ::
  "repository \<Rightarrow> int \<Rightarrow> string \<Rightarrow> refresh_locals \<Rightarrow> int \<times> refresh_locals" where
  \<comment> \<open>\<^verbatim>\<open>capture_command\<close> appends what it captured to the strbuf\<close>
  "query_fsmonitor_hook r version last_update l =
     (if fsmonitor_mode r \<noteq> FSMONITOR_MODE_HOOK then (- 1, l)
      else
        (let (result, out) = run_hook r version last_update
         in (result, l\<lparr>query_result := query_result l @ out,
                        hook_calls := hook_calls l @ [(version, last_update)]\<rparr>)))"

definition fsmonitor_is_trivial_response :: "string \<Rightarrow> bool" where
  "fsmonitor_is_trivial_response buf =
     (length buf \<ge> 3 \<and> [NUL, CHR ''/'', NUL] = drop (length buf - 3) buf)"

section \<open>The refresh engine\<close>

text \<open>
  Modelled from the spec: \<^verbatim>\<open>index_name_pos\<close> (read-cache.c) and
  \<^verbatim>\<open>untracked_cache_invalidate_path\<close>, \<^verbatim>\<open>add_untracked_cache\<close> (dir.c) are missing. The first
  finds an entry by its path: the position of the entry with that path, a negative number
  when there is none. The second is recorded as a call. The third installs a fresh
  untracked cache.
\<close>

fun name_pos_from :: "cache_entry list \<Rightarrow> string \<Rightarrow> nat \<Rightarrow> int" where
  "name_pos_from [] name i = - 1 - int i"
| "name_pos_from (ce # ces) name i =
     (if ce_name ce = name then int i else name_pos_from ces name (Suc i))"

definition index_name_pos :: "index_state \<Rightarrow> string \<Rightarrow> int" where
  "index_name_pos istate name = name_pos_from (cache istate) name 0"

definition untracked_cache_invalidate_path :: "index_state \<Rightarrow> string \<Rightarrow> index_state" where
  "untracked_cache_invalidate_path istate name =
     istate\<lparr>uc_invalidated := uc_invalidated istate @ [name]\<rparr>"

definition add_untracked_cache :: "index_state \<Rightarrow> index_state" where
  "add_untracked_cache istate = istate\<lparr>untracked := Some \<lparr>use_fsmonitor = False\<rparr>\<rparr>"

definition set_use_fsmonitor :: "bool \<Rightarrow> index_state \<Rightarrow> index_state" where
  \<comment> \<open>\<^verbatim>\<open>if (istate->untracked) istate->untracked->use_fsmonitor = v\<close>\<close>
  "set_use_fsmonitor v istate =
     (case untracked istate of
        None \<Rightarrow> istate
      | Some u \<Rightarrow> istate\<lparr>untracked := Some (u\<lparr>use_fsmonitor := v\<rparr>)\<rparr>)"

definition fsmonitor_refresh_callback ::
  "index_state \<Rightarrow> char option \<Rightarrow> string \<Rightarrow> fault + index_state" where
  \<comment> \<open>\<open>name\<close> is the C string passed in; \<open>prev\<close> is the byte in front of it in the response
      buffer (none when the string starts the buffer), which \<^verbatim>\<open>name[len - 1]\<close> reads when
      the string is empty. The write \<^verbatim>\<open>name[len - 1] = '\0'\<close> shortens the string handed
      to the untracked cache; the byte it changes lies in front of the next path and is
      not read again.\<close>
  "fsmonitor_refresh_callback istate prev name =
     (case (if name = [] then prev else Some (last name)) of
        None \<Rightarrow> Inl OutOfBounds
      | Some c \<Rightarrow>
          if c = CHR ''/'' then
            Inr (untracked_cache_invalidate_path
                   (istate\<lparr>cache :=
                      map (\<lambda>ce. if ce_valid ce \<and> starts_with (ce_name ce) name
                                 then clear_valid ce else ce) (cache istate)\<rparr>)
                   (butlast name))
          else
            (let pos = index_name_pos istate name in
             Inr (untracked_cache_invalidate_path
                    (if pos \<ge> 0
                     then istate\<lparr>cache := (cache istate)[nat pos := clear_valid (cache istate ! nat pos)]\<rparr>
                     else istate)
                    name)))"

definition fsmonitor_force_update_threshold :: int where
  "fsmonitor_force_update_threshold = 100"

definition byte_before :: "string \<Rightarrow> nat \<Rightarrow> char option" where
  \<comment> \<open>\<^verbatim>\<open>(buf + start)[-1]\<close>\<close>
  "byte_before buf start = (if start = 0 then None else buf_at buf (start - 1))"

function path_loop ::
  "index_state \<Rightarrow> string \<Rightarrow> nat \<Rightarrow> nat \<Rightarrow> int \<Rightarrow> fault + (index_state \<times> nat \<times> int)" where
  \<comment> \<open>\<^verbatim>\<open>for (i = bol; i < query_result.len; i++)\<close>, from \<open>i\<close> on; \<open>start\<close> is the variable
      \<open>bol\<close>, \<open>n\<close> is \<open>count\<close>. The result is the index, \<open>bol\<close> and \<open>count\<close> when the loop is left.\<close>
  "path_loop istate buf start i n =
     (if i < length buf then
        (if buf ! i \<noteq> NUL then path_loop istate buf start (Suc i) n
         else
           (case fsmonitor_refresh_callback istate (byte_before buf start) (cstr (drop start buf)) of
              Inl e \<Rightarrow> Inl e
            | Inr istate' \<Rightarrow> path_loop istate' buf (Suc i) (Suc i) (n + 1)))
      else Inr (istate, start, n))"
  by pat_completeness auto
termination
  by (relation "measure (\<lambda>(istate, buf, start, i, n). length buf - i)") auto

declare path_loop.simps [simp del]

definition paths_from ::
  "index_state \<Rightarrow> string \<Rightarrow> nat \<Rightarrow> nat \<Rightarrow> int \<Rightarrow> fault + (index_state \<times> int)" where
  \<comment> \<open>the loop, then \<^verbatim>\<open>if (bol < query_result.len) { ...; count++; }\<close>: the index and \<open>count\<close>\<close>
  "paths_from istate buf start i n =
     (case path_loop istate buf start i n of
        Inl e \<Rightarrow> Inl e
      | Inr (istate1, start1, n1) \<Rightarrow>
          if start1 < length buf then
            (case fsmonitor_refresh_callback istate1 (byte_before buf start1)
                    (cstr (drop start1 buf)) of
               Inl e \<Rightarrow> Inl e
             | Inr istate2 \<Rightarrow> Inr (istate2, n1 + 1))
          else Inr (istate1, n1))"

definition mark_paths :: "index_state \<Rightarrow> string \<Rightarrow> nat \<Rightarrow> fault + index_state" where
  \<comment> \<open>the branch taken for a path list; \<open>start\<close> is \<open>bol\<close> on entry\<close>
  "mark_paths istate buf start =
     (case paths_from istate buf start start 0 of
        Inl e \<Rightarrow> Inl e
      | Inr (istate2, n2) \<Rightarrow>
         (let istate3 = set_use_fsmonitor True istate2
          in Inr (if n2 > fsmonitor_force_update_threshold
                  then istate3\<lparr>cache_changed := cache_changed istate3 OR FSMONITOR_CHANGED\<rparr>
                  else istate3)))"

fun invalidate_loop :: "cache_entry list \<Rightarrow> bool \<Rightarrow> cache_entry list \<times> bool" where
  \<comment> \<open>the loop of the other branch: the entries afterwards and \<open>is_cache_changed\<close>\<close>
  "invalidate_loop [] is_cache_changed = ([], is_cache_changed)"
| "invalidate_loop (ce # ces) is_cache_changed =
     (if ce_valid ce then
        (let (ces', changed) = invalidate_loop ces True in (clear_valid ce # ces', changed))
      else
        (let (ces', changed) = invalidate_loop ces is_cache_changed in (ce # ces', changed)))"

definition invalidate_all :: "index_state \<Rightarrow> index_state" where
  \<comment> \<open>the branch taken otherwise\<close>
  "invalidate_all istate =
     (let (ces, is_cache_changed) = invalidate_loop (cache istate) False;
          istate1 = istate\<lparr>cache := ces\<rparr>;
          istate2 = (if is_cache_changed
                     then istate1\<lparr>cache_changed := cache_changed istate1 OR FSMONITOR_CHANGED\<rparr>
                     else istate1)
      in set_use_fsmonitor False istate2)"

definition is_path_list :: "refresh_locals \<Rightarrow> fault + bool" where
  \<comment> \<open>\<^verbatim>\<open>query_success && query_result.buf[bol] != '/'\<close>\<close>
  "is_path_list l =
     (if query_success l then
        (case buf_at (query_result l) (bol l) of
           None \<Rightarrow> Inl OutOfBounds
         | Some c \<Rightarrow> Inr (c \<noteq> CHR ''/''))
      else Inr False)"

definition apply_results :: "index_state \<Rightarrow> refresh_locals \<Rightarrow> fault + index_state" where
  \<comment> \<open>the code from the label \<open>apply_results\<close> on\<close>
  "apply_results istate l =
     (case is_path_list l of
        Inl e \<Rightarrow> Inl e
      | Inr path_list \<Rightarrow>
         (case (if path_list then mark_paths istate (query_result l) (bol l)
                else Inr (invalidate_all istate)) of
            Inl e \<Rightarrow> Inl e
          | Inr istate' \<Rightarrow> Inr (istate'\<lparr>fsmonitor_last_update := Some (last_update_token l)\<rparr>)))"

definition query_ipc :: "repository \<Rightarrow> index_state \<Rightarrow> refresh_locals" where
  "query_ipc r istate =
     (let (result, out) =
            ipc_send_query r (case fsmonitor_last_update istate of
                                Some t \<Rightarrow> t | None \<Rightarrow> ''builtin:fake'');
          l = \<lparr>query_success = (result = 0), query_result = out, bol = 0,
               last_update_token = [], hook_version = - 1, hook_calls = []\<rparr>
      in if query_success l then
           (let l1 = l\<lparr>last_update_token := last_update_token l @ cstr (query_result l)\<rparr>
            in l1\<lparr>bol := length (last_update_token l1) + 1\<rparr>)
         else l\<lparr>last_update_token := last_update_token l @ ''builtin:fake''\<rparr>)"

definition query_hook_v2 :: "repository \<Rightarrow> string \<Rightarrow> 64 word \<Rightarrow> refresh_locals \<Rightarrow> refresh_locals" where
  \<comment> \<open>\<^verbatim>\<open>if (hook_version == -1 || hook_version == HOOK_INTERFACE_VERSION2) { ... }\<close>\<close>
  "query_hook_v2 r prior last_update l =
     (if hook_version l = - 1 \<or> hook_version l = HOOK_INTERFACE_VERSION2 then
        (let (result, l0) = query_fsmonitor_hook r HOOK_INTERFACE_VERSION2 prior l;
             l1 = l0\<lparr>query_success := (result = 0)\<rparr>
         in if query_success l1 then
              (let l2 = (if hook_version l1 < 0
                         then l1\<lparr>hook_version := HOOK_INTERFACE_VERSION2\<rparr> else l1);
                   l3 = l2\<lparr>last_update_token := last_update_token l2 @ cstr (query_result l2)\<rparr>
               in if last_update_token l3 = [] then l3\<lparr>query_success := False\<rparr>
                  else l3\<lparr>bol := length (last_update_token l3) + 1\<rparr>)
            else if hook_version l1 < 0 then
              (let l2 = l1\<lparr>hook_version := HOOK_INTERFACE_VERSION1\<rparr>
               in if last_update_token l2 = []
                  then l2\<lparr>last_update_token := last_update_token l2 @ dec (unat last_update)\<rparr>
                  else l2)
            else l1)
      else l)"

definition query_hook_v1 :: "repository \<Rightarrow> string \<Rightarrow> refresh_locals \<Rightarrow> refresh_locals" where
  \<comment> \<open>\<^verbatim>\<open>if (hook_version == HOOK_INTERFACE_VERSION1) { ... }\<close>\<close>
  "query_hook_v1 r prior l =
     (if hook_version l = HOOK_INTERFACE_VERSION1 then
        (let (result, l0) = query_fsmonitor_hook r HOOK_INTERFACE_VERSION1 prior l
         in l0\<lparr>query_success := (result = 0)\<rparr>)
      else l)"

definition query_hook :: "repository \<Rightarrow> index_state \<Rightarrow> refresh_locals" where
  "query_hook r istate =
     (let hv = fsmonitor_hook_version r;
          last_update = getnanotime r;
          l = \<lparr>query_success = False, query_result = [], bol = 0,
               last_update_token =
                 (if hv = HOOK_INTERFACE_VERSION1 then dec (unat last_update) else []),
               hook_version = hv, hook_calls = []\<rparr>
      in case fsmonitor_last_update istate of
           None \<Rightarrow> l
         | Some prior \<Rightarrow> query_hook_v1 r prior (query_hook_v2 r prior last_update l))"

definition refresh_fsmonitor :: "repository \<Rightarrow> index_state \<Rightarrow> fault + index_state" where
  "refresh_fsmonitor r istate =
     (if fsmonitor_mode r = FSMONITOR_MODE_DISABLED \<or> fsmonitor_has_run_once istate
      then Inr istate
      else
        (let istate1 = istate\<lparr>fsmonitor_has_run_once := True\<rparr>
         in if fsmonitor_mode r = FSMONITOR_MODE_IPC
            then apply_results istate1 (query_ipc r istate1)
            else apply_results istate1 (query_hook r istate1)))"

section \<open>Attach, detach, reconcile\<close>

definition initialize_fsmonitor_last_update :: "repository \<Rightarrow> index_state \<Rightarrow> index_state" where
  "initialize_fsmonitor_last_update r istate =
     istate\<lparr>fsmonitor_last_update := Some (dec (unat (attach_nanotime r)))\<rparr>"

definition add_fsmonitor :: "repository \<Rightarrow> index_state \<Rightarrow> fault + index_state" where
  "add_fsmonitor r istate =
     (case fsmonitor_last_update istate of
        Some _ \<Rightarrow> Inr istate
      | None \<Rightarrow>
         (let istate1 = istate\<lparr>cache_changed := cache_changed istate OR FSMONITOR_CHANGED\<rparr>;
              istate2 = initialize_fsmonitor_last_update r istate1;
              istate3 = istate2\<lparr>cache := map clear_valid (cache istate2)\<rparr>;
              istate4 = (case untracked istate3 of
                           None \<Rightarrow> istate3
                         | Some _ \<Rightarrow> set_use_fsmonitor True (add_untracked_cache istate3))
          in refresh_fsmonitor r istate4))"

definition remove_fsmonitor :: "index_state \<Rightarrow> index_state" where
  "remove_fsmonitor istate =
     (case fsmonitor_last_update istate of
        Some _ \<Rightarrow> istate\<lparr>cache_changed := cache_changed istate OR FSMONITOR_CHANGED,
                          fsmonitor_last_update := None\<rparr>
      | None \<Rightarrow> istate)"

definition tweak_dirty :: "repository \<Rightarrow> index_state \<Rightarrow> ewah_bitmap \<Rightarrow> fault + index_state" where
  \<comment> \<open>\<^verbatim>\<open>if (istate->fsmonitor_dirty) { ... }\<close>\<close>
  "tweak_dirty r istate dirty =
     (case (if fsmonitor_mode r \<noteq> FSMONITOR_MODE_DISABLED then
              (let istate1 = istate\<lparr>cache := map set_valid (cache istate)\<rparr>
               in case assert_index_minimum istate1 (bit_size dirty) of
                    Inl e \<Rightarrow> Inl e
                  | Inr _ \<Rightarrow>
                     (case ewah_each_bit dirty fsmonitor_ewah_callback istate1 of
                        Inl e \<Rightarrow> Inl e
                      | Inr istate2 \<Rightarrow> refresh_fsmonitor r istate2))
            else Inr istate) of
        Inl e \<Rightarrow> Inl e
      | Inr istate' \<Rightarrow> Inr (istate'\<lparr>fsmonitor_dirty := None\<rparr>))"

definition tweak_fsmonitor :: "repository \<Rightarrow> index_state \<Rightarrow> fault + index_state" where
  "tweak_fsmonitor r istate =
     (case (case fsmonitor_dirty istate of
              Some dirty \<Rightarrow> tweak_dirty r istate dirty
            | None \<Rightarrow> Inr istate) of
        Inl e \<Rightarrow> Inl e
      | Inr istate' \<Rightarrow>
          if fsmonitor_mode r \<noteq> FSMONITOR_MODE_DISABLED then add_fsmonitor r istate'
          else Inr (remove_fsmonitor istate'))"

section \<open>Notions of the spec\<close>

text \<open>
  The dirty set of a bitmap and the live entries of an index, in the words of the spec:
  bit \<open>i\<close> set means that the \<open>i\<close>th live entry is known to be dirty.
\<close>

definition ewah_bits :: "ewah_bitmap \<Rightarrow> nat set" where
  \<comment> \<open>the dirty set a bitmap stands for\<close>
  "ewah_bits b = {k. k < length b \<and> b ! k}"

definition live_entries :: "cache_entry list \<Rightarrow> cache_entry list" where
  \<comment> \<open>the entries that are not marked \<open>CE_REMOVE\<close>, in index order\<close>
  "live_entries ces = filter (\<lambda>ce. \<not> ce_removed ce) ces"

text \<open>
  The path list in the words of the spec: the bytes after the token are split on NUL, and
  a trailing segment without a NUL is still a path. \<open>apply_paths\<close> hands the paths to the
  callback one after the other; every path but the first has a NUL in front of it.
\<close>

fun split_acc :: "string \<Rightarrow> string \<Rightarrow> string list" where
  "split_acc acc [] = (if acc = [] then [] else [acc])"
| "split_acc acc (c # cs) =
     (if c = NUL then acc # split_acc [] cs else split_acc (acc @ [c]) cs)"

definition response_paths :: "string \<Rightarrow> nat \<Rightarrow> string list" where
  "response_paths buf start = split_acc [] (drop start buf)"

fun apply_paths :: "index_state \<Rightarrow> char option \<Rightarrow> string list \<Rightarrow> fault + index_state" where
  "apply_paths istate prev [] = Inr istate"
| "apply_paths istate prev (p # ps) =
     (case fsmonitor_refresh_callback istate prev p of
        Inl e \<Rightarrow> Inl e
      | Inr istate' \<Rightarrow> apply_paths istate' (Some NUL) ps)"

definition parsed_token :: "repository \<Rightarrow> index_state \<Rightarrow> string" where
  \<comment> \<open>the token of the spec's response parser: the prefix up to the first NUL of the
      response to the IPC query, or of the output of the version 2 hook\<close>
  "parsed_token r istate =
     (if fsmonitor_mode r = FSMONITOR_MODE_IPC then
        cstr (snd (ipc_send_query r (case fsmonitor_last_update istate of
                                       Some t \<Rightarrow> t | None \<Rightarrow> ''builtin:fake'')))
      else
        (case fsmonitor_last_update istate of
           Some prior \<Rightarrow> cstr (snd (run_hook r 2 prior))
         | None \<Rightarrow> []))"

text \<open>
  What the flags of an index may look like after the subsystem has worked on it, and a
  reading of decimal digits to check \<open>dec\<close> against.
\<close>

definition entries_only_cleared :: "cache_entry list \<Rightarrow> cache_entry list \<Rightarrow> bool" where
  \<comment> \<open>entry by entry, the second list is the first with \<open>CE_FSMONITOR_VALID\<close> cleared on some\<close>
  "entries_only_cleared old new = list_all2 (\<lambda>a b. b = a \<or> b = clear_valid a) old new"

fun clear_bits :: "ewah_bitmap \<Rightarrow> cache_entry list \<Rightarrow> cache_entry list" where
  \<comment> \<open>\<open>CE_FSMONITOR_VALID\<close> cleared on the entries at the positions of the set bits\<close>
  "clear_bits [] ces = ces"
| "clear_bits (b # bs) [] = []"
| "clear_bits (b # bs) (ce # ces) = (if b then clear_valid ce else ce) # clear_bits bs ces"

definition decimal_value :: "string \<Rightarrow> nat" where
  \<comment> \<open>the number a string of decimal digits stands for\<close>
  "decimal_value ds = foldl (\<lambda>acc c. 10 * acc + (of_char c - 48)) 0 ds"

section \<open>Concrete inputs\<close>

text \<open>
  Small indices, providers with fixed answers, and a stand-in for the EWAH wire format
  (one byte per bit), used to run the functions above on explicit data.
\<close>

definition entry :: "string \<Rightarrow> bool \<Rightarrow> cache_entry" where
  "entry n v = \<lparr>ce_name = n, ce_flags = (if v then CE_FSMONITOR_VALID else 0)\<rparr>"

definition removed_entry :: "string \<Rightarrow> cache_entry" where
  "removed_entry n = \<lparr>ce_name = n, ce_flags = CE_REMOVE\<rparr>"

definition index_of :: "cache_entry list \<Rightarrow> string option \<Rightarrow> index_state" where
  "index_of ces tok =
     \<lparr>cache = ces, cache_changed = 0, split_index = False,
      untracked = Some \<lparr>use_fsmonitor = False\<rparr>, fsmonitor_last_update = tok,
      fsmonitor_dirty = None, fsmonitor_has_run_once = False, uc_invalidated = []\<rparr>"

definition scenario_s5 :: index_state where
  \<comment> \<open>ten live entries, the second, fifth and eighth of them dirty, and a removed entry
      at position 3\<close>
  "scenario_s5 =
     index_of [entry ''f0'' True, entry ''f1'' False, entry ''f2'' True, removed_entry ''gone'',
               entry ''f3'' True, entry ''f4'' False, entry ''f5'' True, entry ''f6'' True,
               entry ''f7'' False, entry ''f8'' True, entry ''f9'' True] (Some ''T0'')"

definition scenario_s5_fresh :: index_state where
  "scenario_s5_fresh =
     index_of [entry ''f0'' True, entry ''f1'' True, entry ''f2'' True,
               entry ''f3'' True, entry ''f4'' True, entry ''f5'' True, entry ''f6'' True,
               entry ''f7'' True, entry ''f8'' True, entry ''f9'' True] None"

definition restored_index :: "ewah_bitmap \<Rightarrow> index_state" where
  \<comment> \<open>an index of three entries as read from disk, with a restored bitmap and token\<close>
  "restored_index b =
     (index_of [entry ''a'' False, entry ''b'' False, entry ''c'' False] (Some ''T0''))
       \<lparr>fsmonitor_dirty := Some b\<rparr>"

definition bytewise_serializer :: ewah_serializer where
  "bytewise_serializer b = map (\<lambda>x. if x then CHR 0x01 else CHR 0x00) b"

definition bytewise_reader :: ewah_reader where
  "bytewise_reader mem len =
     (if len \<le> length mem then (int len, map (\<lambda>c. c \<noteq> CHR 0x00) (take len mem))
      else (- 1, []))"

definition ipc_repo :: "int \<Rightarrow> string \<Rightarrow> repository" where
  \<comment> \<open>IPC mode; the daemon answers every query with the given return value and response\<close>
  "ipc_repo rc response =
     \<lparr>fsmonitor_mode = FSMONITOR_MODE_IPC, fsmonitorhookversion = None, getnanotime = 1234,
      attach_nanotime = 99, run_hook = (\<lambda>v t. (1, [])), ipc_send_query = (\<lambda>t. (rc, response))\<rparr>"

definition hook_repo :: "int option \<Rightarrow> (int \<Rightarrow> int \<times> string) \<Rightarrow> repository" where
  \<comment> \<open>hook mode with the given \<^verbatim>\<open>core.fsmonitorhookversion\<close>; the hook's exit status and
      output depend on the version argument only\<close>
  "hook_repo v h =
     \<lparr>fsmonitor_mode = FSMONITOR_MODE_HOOK, fsmonitorhookversion = v, getnanotime = 1234,
      attach_nanotime = 99, run_hook = (\<lambda>version t. h version),
      ipc_send_query = (\<lambda>t. (- 1, []))\<rparr>"

definition locals_v2 :: "string \<Rightarrow> string \<Rightarrow> refresh_locals" where
  \<comment> \<open>the local variables at \<open>apply_results\<close> after a successful version 2 query that
      returned the given token followed by NUL and the given bytes\<close>
  "locals_v2 tok paths =
     \<lparr>query_success = True, query_result = tok @ NUL # paths, bol = length tok + 1,
      last_update_token = tok, hook_version = 2, hook_calls = [(2, ''T0'')]\<rparr>"

section \<open>Flag bits, big-endian words and C strings\<close>

lemma CE_FSMONITOR_VALID_exp: "CE_FSMONITOR_VALID = 2 ^ 21"
  by (simp add: CE_FSMONITOR_VALID_def)

lemma CE_REMOVE_exp: "CE_REMOVE = 2 ^ 17"
  by (simp add: CE_REMOVE_def)

lemma ce_valid_bit: "ce_valid ce = bit (ce_flags ce) 21"
  unfolding ce_valid_def CE_FSMONITOR_VALID_def by (rule bit_iff_and_push_bit_not_eq_0 [symmetric])

lemma ce_removed_bit: "ce_removed ce = bit (ce_flags ce) 17"
  unfolding ce_removed_def CE_REMOVE_def by (rule bit_iff_and_push_bit_not_eq_0 [symmetric])

lemma clear_valid_unset: "clear_valid ce = ce\<lparr>ce_flags := unset_bit 21 (ce_flags ce)\<rparr>"
  unfolding clear_valid_def CE_FSMONITOR_VALID_def by (simp only: unset_bit_eq_and_not)

lemma set_valid_set: "set_valid ce = ce\<lparr>ce_flags := set_bit 21 (ce_flags ce)\<rparr>"
  unfolding set_valid_def CE_FSMONITOR_VALID_def by (simp only: set_bit_eq_or)

lemma ce_valid_clear_valid [simp]: "\<not> ce_valid (clear_valid ce)"
  by (simp add: ce_valid_bit clear_valid_unset bit_simps)

lemma ce_valid_set_valid [simp]: "ce_valid (set_valid ce)"
  by (simp add: ce_valid_bit set_valid_set bit_simps)

lemma ce_name_clear_valid [simp]: "ce_name (clear_valid ce) = ce_name ce"
  by (simp add: clear_valid_def)

lemma ce_name_set_valid [simp]: "ce_name (set_valid ce) = ce_name ce"
  by (simp add: set_valid_def)

lemma ce_removed_clear_valid [simp]: "ce_removed (clear_valid ce) = ce_removed ce"
  by (simp add: ce_removed_bit clear_valid_unset bit_simps)

lemma clear_valid_idem: "\<not> ce_valid ce \<Longrightarrow> clear_valid ce = ce"
proof -
  assume nv: "\<not> ce_valid ce"
  have "unset_bit 21 (ce_flags ce) = ce_flags ce"
  proof (rule bit_word_eqI)
    fix n :: nat
    assume "n < LENGTH(32)"
    then show "bit (unset_bit 21 (ce_flags ce)) n = bit (ce_flags ce) n"
      using nv by (auto simp: ce_valid_bit bit_simps)
  qed
  then show ?thesis by (simp add: clear_valid_unset)
qed

lemma of_char_char_of_word: "(of_char (char_of (unat (w :: 32 word))) :: 32 word) = take_bit 8 w"
proof -
  have "(of_char (char_of (unat w)) :: 32 word) = of_nat (of_char (char_of (unat w)))"
    by (simp only: of_nat_of_char)
  also have "\<dots> = of_nat (take_bit 8 (unat w))"
    by (simp add: take_bit_eq_mod)
  also have "\<dots> = take_bit 8 w"
    by (simp add: unsigned_take_bit_eq flip: unsigned_take_bit_eq)
  finally show ?thesis .
qed

lemma be32_bytes:
  "push_bit 24 (take_bit 8 (drop_bit 24 v)) OR push_bit 16 (take_bit 8 (drop_bit 16 v)) OR
   push_bit 8 (take_bit 8 (drop_bit 8 v)) OR take_bit 8 v = (v :: 32 word)"
proof (rule bit_word_eqI)
  fix n :: nat
  assume n: "n < LENGTH(32)"
  consider "n < 8" | "8 \<le> n" "n < 16" | "16 \<le> n" "n < 24" | "24 \<le> n" by linarith
  then show "bit (push_bit 24 (take_bit 8 (drop_bit 24 v)) OR push_bit 16 (take_bit 8 (drop_bit 16 v)) OR
                 push_bit 8 (take_bit 8 (drop_bit 8 v)) OR take_bit 8 v) n = bit v n"
    using n by cases (auto simp: bit_simps)
qed

lemma length_put_be32 [simp]: "length (put_be32 v) = 4"
  by (simp add: put_be32_def)

lemma get_be32_put_be32: "get_be32 (pre @ put_be32 v @ rest) (length pre) = Some v"
  by (simp add: get_be32_def put_be32_def of_char_char_of_word be32_bytes)

lemma get_be32_short: "length mem < off + 4 \<Longrightarrow> get_be32 mem off = None"
  by (auto simp: get_be32_def split: list.splits dest: arg_cong [where f = length])

lemma cstr_mem_append:
  "NUL \<notin> set tok \<Longrightarrow> cstr_mem (pre @ tok @ NUL # rest) (length pre) = Some tok"
  by (auto simp: cstr_mem_def takeWhile_tail)

lemma cstr_append_NUL: "NUL \<notin> set tok \<Longrightarrow> cstr (tok @ NUL # rest) = tok"
  by (auto simp: cstr_def takeWhile_tail)

lemma cstr_no_NUL: "NUL \<notin> set (cstr buf)"
  by (auto simp: cstr_def dest: set_takeWhileD)

lemma digit_char: "d < 10 \<Longrightarrow> of_char (char_of (48 + d :: nat)) = 48 + d"
  by simp

lemma digits_all: "list_all (\<lambda>d. char_of (48 + d) \<in> set ''0123456789'') [0..<10]"
  by code_simp

lemma digit_in: "d < 10 \<Longrightarrow> char_of (48 + d :: nat) \<in> set ''0123456789''"
  using digits_all unfolding list_all_iff by (metis atLeastLessThan_iff set_upt zero_le)

lemma dec_digits: "set (dec n) \<subseteq> set ''0123456789''"
proof (induction n rule: dec.induct)
  case (1 n)
  show ?case
  proof (cases "n < 10")
    case True
    then show ?thesis
      using digit_in [of n] by (subst dec.simps) simp
  next
    case False
    have "char_of (48 + n mod 10) \<in> set ''0123456789''"
      by (rule digit_in) simp
    with "1.IH" False show ?thesis
      by (subst dec.simps) simp
  qed
qed

lemma decimal_value_dec: "decimal_value (dec n) = n"
proof (induction n rule: dec.induct)
  case (1 n)
  show ?case
  proof (cases "n < 10")
    case True
    then show ?thesis
      by (subst dec.simps) (simp add: decimal_value_def digit_char del: of_char_of)
  next
    case False
    have "n mod 10 < 10" by simp
    then have "decimal_value (dec (n div 10) @ [char_of (48 + n mod 10)]) =
        10 * decimal_value (dec (n div 10)) + n mod 10"
      by (simp add: decimal_value_def digit_char del: of_char_of)
    with "1.IH" False show ?thesis
      by (subst dec.simps) simp
  qed
qed

lemma get_be32_0: "get_be32 (put_be32 v @ rest) 0 = Some v"
  using get_be32_put_be32 [of "[]" v rest] by simp

lemma read_token_v2:
  "NUL \<notin> set tok \<Longrightarrow>
   read_token (put_be32 2 @ tok @ NUL # rest) 2 = Inr (Some (tok, 4 + (length tok + 1)))"
  using cstr_mem_append [of tok "put_be32 2" rest] by (simp add: read_token_def)

lemma get_be32_after_token:
  "get_be32 (put_be32 v @ tok @ NUL # put_be32 w @ rest) (4 + (length tok + 1)) = Some w"
  using get_be32_put_be32 [of "put_be32 v @ tok @ [NUL]" w rest] by simp

section \<open>Reading the extension\<close>



lemma word_of_int_eq_byte_count:
  assumes "0 \<le> ret" and "ret < 2 ^ 32"
  shows "((word_of_int ret :: 32 word) = w) = (ret = uint w)"
proof
  assume "(word_of_int ret :: 32 word) = w"
  then have "uint w = take_bit 32 ret"
    by (auto simp: uint_word_of_int_eq)
  also have "\<dots> = ret"
    using assms by (simp add: take_bit_int_eq_self)
  finally show "ret = uint w" by simp
next
  assume "ret = uint w"
  then show "(word_of_int ret :: 32 word) = w" by simp
qed

lemma get_be64_bytes:
  "get_be64 (pre @ [p0, p1, p2, p3, p4, p5, p6, p7] @ rest) (length pre) =
     Some (push_bit 56 (of_char p0) OR push_bit 48 (of_char p1) OR
           push_bit 40 (of_char p2) OR push_bit 32 (of_char p3) OR
           push_bit 24 (of_char p4) OR push_bit 16 (of_char p5) OR
           push_bit 8 (of_char p6) OR of_char p7)"
  by (simp add: get_be64_def)

lemma dec_1234: "dec 1234 = ''1234''"
  by code_simp

lemma ex_v1_header:
  "get_be64 (put_be32 1 @ CHR 0x00 # CHR 0x00 # CHR 0x00 # CHR 0x00 # CHR 0x00 # CHR 0x00 #
      CHR 0x04 # CHR 0xD2 # rest) 4 = Some 1234"
  using get_be64_bytes [of "put_be32 1" "CHR 0x00" "CHR 0x00" "CHR 0x00" "CHR 0x00" "CHR 0x00" "CHR 0x00" "CHR 0x04" "CHR 0xD2" rest]
  by simp


text \<open>
  The cases of \<open>read_fsmonitor_extension\<close>. It reports an error when the size is below 9
  and when the version word is neither 1 nor 2. The token is the decimal form of the
  big-endian 64-bit timestamp (version 1) or the NUL-terminated string (version 2). The
  third error is decided by \<^verbatim>\<open>ret != ewah_size\<close>, an \<^verbatim>\<open>int\<close> against a \<^verbatim>\<open>uint32_t\<close>: the
  \<^verbatim>\<open>int\<close> is converted, so the test compares modulo \<open>2^32\<close>. For a byte count (a value from
  0 to \<open>2^31 - 1\<close>) that is the comparison with the declared size. When the test passes
  the bitmap is stored, and unless the index is a split index a bitmap with more bits
  than the index has entries aborts with \<open>BUG\<close>.
\<close>

lemma read_fsmonitor_extension_cases:
  "(sz < 9 \<longrightarrow> read_fsmonitor_extension rd istate mem sz = Inr (Some TooShort, istate))
   \<and> (9 \<le> sz \<and> get_be32 mem 0 = Some v \<and> v \<noteq> 1 \<and> v \<noteq> 2 \<longrightarrow>
        read_fsmonitor_extension rd istate mem sz = Inr (Some (BadVersion v), istate))
   \<and> (get_be64 mem 4 = Some timestamp \<longrightarrow>
        read_token mem 1 = Inr (Some (dec (unat timestamp), 12)))
   \<and> (cstr_mem mem 4 = Some s \<longrightarrow> read_token mem 2 = Inr (Some (s, 4 + (length s + 1))))
   \<and> (9 \<le> sz \<and> get_be32 mem 0 = Some v \<and> read_token mem v = Inr (Some (tok, index)) \<and>
      get_be32 mem index = Some ewah_size \<and>
      rd (drop (index + 4) mem) (unat ewah_size) = (ret, dirty) \<longrightarrow>
        read_fsmonitor_extension rd istate mem sz =
          (if word_of_int ret \<noteq> ewah_size
           then Inr (Some EwahParse, istate\<lparr>fsmonitor_last_update := Some tok\<rparr>)
           else if \<not> split_index istate \<and> bit_size dirty > cache_nr istate
           then Inl BUG_more_entries
           else Inr (None, istate\<lparr>fsmonitor_last_update := Some tok,
                                   fsmonitor_dirty := Some dirty\<rparr>)))
   \<and> (0 \<le> ret \<and> ret < 2 ^ 31 \<longrightarrow>
        ((word_of_int ret :: 32 word) \<noteq> ewah_size) = (ret \<noteq> uint ewah_size))"
proof (intro conjI impI)
  show "read_fsmonitor_extension rd istate mem sz = Inr (Some TooShort, istate)" if "sz < 9"
    using that by (simp add: read_fsmonitor_extension_def)
  show "read_fsmonitor_extension rd istate mem sz = Inr (Some (BadVersion v), istate)"
    if "9 \<le> sz \<and> get_be32 mem 0 = Some v \<and> v \<noteq> 1 \<and> v \<noteq> 2"
    using that by (simp add: read_fsmonitor_extension_def read_token_def)
  show "read_token mem 1 = Inr (Some (dec (unat timestamp), 12))"
    if "get_be64 mem 4 = Some timestamp"
    using that by (simp add: read_token_def)
  show "read_token mem 2 = Inr (Some (s, 4 + (length s + 1)))" if "cstr_mem mem 4 = Some s"
    using that by (simp add: read_token_def)
  show "read_fsmonitor_extension rd istate mem sz =
          (if word_of_int ret \<noteq> ewah_size
           then Inr (Some EwahParse, istate\<lparr>fsmonitor_last_update := Some tok\<rparr>)
           else if \<not> split_index istate \<and> bit_size dirty > cache_nr istate
           then Inl BUG_more_entries
           else Inr (None, istate\<lparr>fsmonitor_last_update := Some tok,
                                   fsmonitor_dirty := Some dirty\<rparr>))"
    if "9 \<le> sz \<and> get_be32 mem 0 = Some v \<and> read_token mem v = Inr (Some (tok, index)) \<and>
        get_be32 mem index = Some ewah_size \<and>
        rd (drop (index + 4) mem) (unat ewah_size) = (ret, dirty)"
    using that
    by (simp add: read_fsmonitor_extension_def assert_index_minimum_def cache_nr_def Let_def)
  show "((word_of_int ret :: 32 word) \<noteq> ewah_size) = (ret \<noteq> uint ewah_size)"
    if "0 \<le> ret \<and> ret < 2 ^ 31"
    using that word_of_int_eq_byte_count [of ret ewah_size] by simp
qed



text \<open>
  One run per case: a 7-byte extension, version 3, a version 1 extension with timestamp
  1234, a version 2 extension with token \<open>T9\<close>, a declared size of 3 with 2 bytes there, a
  two-bit bitmap read into a one-entry index, and the same into a split index.
\<close>

lemma read_fsmonitor_extension_examples:
  "read_fsmonitor_extension bytewise_reader (index_of [] (Some ''T0'')) (put_be32 2 @ ''T9'' @ [NUL]) 7 =
     Inr (Some TooShort, index_of [] (Some ''T0''))
   \<and> read_fsmonitor_extension bytewise_reader (index_of [] (Some ''T0''))
        (put_be32 3 @ ''T9'' @ NUL # put_be32 0) 11 =
     Inr (Some (BadVersion 3), index_of [] (Some ''T0''))
   \<and> read_fsmonitor_extension bytewise_reader (index_of [entry ''a'' True, entry ''b'' True] None)
        (put_be32 1 @ [CHR 0x00, CHR 0x00, CHR 0x00, CHR 0x00, CHR 0x00, CHR 0x00, CHR 0x04, CHR 0xD2]
           @ put_be32 2 @ [CHR 0x01, CHR 0x00]) 18 =
     Inr (None, (index_of [entry ''a'' True, entry ''b'' True] None)
                  \<lparr>fsmonitor_last_update := Some ''1234'', fsmonitor_dirty := Some [True, False]\<rparr>)
   \<and> read_fsmonitor_extension bytewise_reader (index_of [entry ''a'' True, entry ''b'' True] None)
        (put_be32 2 @ ''T9'' @ NUL # put_be32 2 @ [CHR 0x00, CHR 0x01]) 13 =
     Inr (None, (index_of [entry ''a'' True, entry ''b'' True] None)
                  \<lparr>fsmonitor_last_update := Some ''T9'', fsmonitor_dirty := Some [False, True]\<rparr>)
   \<and> read_fsmonitor_extension bytewise_reader (index_of [entry ''a'' True] None)
        (put_be32 2 @ ''T9'' @ NUL # put_be32 3 @ [CHR 0x00, CHR 0x01]) 13 =
     Inr (Some EwahParse, (index_of [entry ''a'' True] None)\<lparr>fsmonitor_last_update := Some ''T9''\<rparr>)
   \<and> read_fsmonitor_extension bytewise_reader (index_of [entry ''a'' True] None)
        (put_be32 2 @ ''T9'' @ NUL # put_be32 2 @ [CHR 0x00, CHR 0x01]) 13 =
     Inl BUG_more_entries
   \<and> read_fsmonitor_extension bytewise_reader ((index_of [entry ''a'' True] None)\<lparr>split_index := True\<rparr>)
        (put_be32 2 @ ''T9'' @ NUL # put_be32 2 @ [CHR 0x00, CHR 0x01]) 13 =
     Inr (None, (index_of [entry ''a'' True] None)
                  \<lparr>split_index := True, fsmonitor_last_update := Some ''T9'',
                     fsmonitor_dirty := Some [False, True]\<rparr>)"
proof -
  let ?i0 = "index_of [] (Some ''T0'')"
  let ?i1 = "index_of [entry ''a'' True] None"
  let ?i2 = "index_of [entry ''a'' True, entry ''b'' True] None"
  let ?ts = "[CHR 0x00, CHR 0x00, CHR 0x00, CHR 0x00, CHR 0x00, CHR 0x00, CHR 0x04, CHR 0xD2]"
  let ?m1 = "put_be32 1 @ ?ts @ put_be32 2 @ [CHR 0x01, CHR 0x00]"
  let ?m2 = "\<lambda>n. put_be32 2 @ ''T9'' @ NUL # put_be32 n @ [CHR 0x00, CHR 0x01]"
  have nul: "NUL \<notin> set ''T9''" by (simp add: NUL_def)
  have tok2: "\<And>n. read_token (?m2 n) 2 = Inr (Some (''T9'', 7))"
    using read_token_v2 [OF nul] by simp
  have size2: "\<And>n. get_be32 (?m2 n) 7 = Some n"
    using get_be32_after_token [of 2 "''T9''"] by simp
  have tok1: "read_token ?m1 1 = Inr (Some (''1234'', 12))"
    using read_fsmonitor_extension_cases
      [THEN conjunct2, THEN conjunct2, THEN conjunct1, rule_format, of ?m1 1234]
    by (simp add: ex_v1_header dec_1234)
  have size1: "get_be32 ?m1 12 = Some 2"
    using get_be32_put_be32 [of "put_be32 1 @ ?ts" 2 "[CHR 0x01, CHR 0x00]"] by simp
  have rd: "bytewise_reader [CHR 0x01, CHR 0x00] 2 = (2, [True, False])"
    "bytewise_reader [CHR 0x00, CHR 0x01] 2 = (2, [False, True])"
    "bytewise_reader [CHR 0x00, CHR 0x01] 3 = (- 1, [])"
    by (simp_all add: bytewise_reader_def)
  note short = read_fsmonitor_extension_cases [THEN conjunct1, rule_format]
  note bad = read_fsmonitor_extension_cases [THEN conjunct2, THEN conjunct1, rule_format]
  note c = read_fsmonitor_extension_cases
    [THEN conjunct2, THEN conjunct2, THEN conjunct2, THEN conjunct2, THEN conjunct1, rule_format,
     where rd = bytewise_reader]
  have "read_fsmonitor_extension bytewise_reader ?i0 (put_be32 2 @ ''T9'' @ [NUL]) 7 =
      Inr (Some TooShort, ?i0)"
    using short [of 7] by simp
  moreover have "read_fsmonitor_extension bytewise_reader ?i0 (put_be32 3 @ ''T9'' @ NUL # put_be32 0) 11 =
      Inr (Some (BadVersion 3), ?i0)"
    using bad [where sz = 11 and mem = "put_be32 3 @ ''T9'' @ NUL # put_be32 0" and v = 3]
    by (simp add: get_be32_0)
  moreover have "read_fsmonitor_extension bytewise_reader ?i2 ?m1 18 =
      Inr (None, ?i2\<lparr>fsmonitor_last_update := Some ''1234'', fsmonitor_dirty := Some [True, False]\<rparr>)"
    using c [where sz = 18 and mem = ?m1 and v = 1 and tok = "''1234''" and index = 12
        and ewah_size = 2 and ret = 2 and dirty = "[True, False]" and istate = ?i2]
      tok1 size1
    by (simp add: get_be32_0 rd index_of_def bit_size_def cache_nr_def)
  moreover have "read_fsmonitor_extension bytewise_reader ?i2 (?m2 2) 13 =
      Inr (None, ?i2\<lparr>fsmonitor_last_update := Some ''T9'', fsmonitor_dirty := Some [False, True]\<rparr>)"
    using c [where sz = 13 and mem = "?m2 2" and v = 2 and tok = "''T9''" and index = 7
        and ewah_size = 2 and ret = 2 and dirty = "[False, True]" and istate = ?i2]
      tok2 size2 [of 2]
    by (simp add: get_be32_0 rd index_of_def bit_size_def cache_nr_def)
  moreover have "read_fsmonitor_extension bytewise_reader ?i1 (?m2 3) 13 =
      Inr (Some EwahParse, ?i1\<lparr>fsmonitor_last_update := Some ''T9''\<rparr>)"
    using c [where sz = 13 and mem = "?m2 3" and v = 2 and tok = "''T9''" and index = 7
        and ewah_size = 3 and ret = "- 1" and dirty = "[]" and istate = ?i1]
      tok2 size2 [of 3]
    by (simp add: get_be32_0 rd)
  moreover have "read_fsmonitor_extension bytewise_reader ?i1 (?m2 2) 13 = Inl BUG_more_entries"
    using c [where sz = 13 and mem = "?m2 2" and v = 2 and tok = "''T9''" and index = 7
        and ewah_size = 2 and ret = 2 and dirty = "[False, True]" and istate = ?i1]
      tok2 size2 [of 2]
    by (simp add: get_be32_0 rd index_of_def bit_size_def cache_nr_def)
  moreover have "read_fsmonitor_extension bytewise_reader (?i1\<lparr>split_index := True\<rparr>) (?m2 2) 13 =
      Inr (None, ?i1\<lparr>split_index := True, fsmonitor_last_update := Some ''T9'',
                       fsmonitor_dirty := Some [False, True]\<rparr>)"
    using c [where sz = 13 and mem = "?m2 2" and v = 2 and tok = "''T9''" and index = 7
        and ewah_size = 2 and ret = 2 and dirty = "[False, True]" and istate = "?i1\<lparr>split_index := True\<rparr>"]
      tok2 size2 [of 2]
    by (simp add: get_be32_0 rd index_of_def bit_size_def cache_nr_def)
  ultimately show ?thesis by blast
qed

text \<open>
  Claim C6. The claim asks for an error whenever the EWAH reader did not consume exactly
  the declared \<open>ewah_size\<close>. The code misses one case of it. A reader that fails returns a
  negative number; the comparison \<^verbatim>\<open>ret != ewah_size\<close> converts it to \<^verbatim>\<open>uint32_t\<close>, so a
  negative \<open>ret\<close> that is congruent to the declared size modulo \<open>2^32\<close> (\<open>-1\<close> against
  \<open>0xFFFFFFFF\<close>) passes the test: no error is reported, and the token and whatever bitmap
  the failed reader left behind are installed in the index.
\<close>

theorem failed_decode_accepted:
  assumes "9 \<le> sz"
    and "get_be32 mem 0 = Some v"
    and "read_token mem v = Inr (Some (tok, index))"
    and "get_be32 mem index = Some ewah_size"
    and "rd (drop (index + 4) mem) (unat ewah_size) = (ret, dirty)"
    and "ret < 0" and "(word_of_int ret :: 32 word) = ewah_size"
    and "split_index istate \<or> bit_size dirty \<le> cache_nr istate"
  shows "ret \<noteq> uint ewah_size
       \<and> read_fsmonitor_extension rd istate mem sz =
           Inr (None, istate\<lparr>fsmonitor_last_update := Some tok, fsmonitor_dirty := Some dirty\<rparr>)"
proof
  show "ret \<noteq> uint ewah_size" using assms(6) by auto
  from assms(1-5,7,8) show "read_fsmonitor_extension rd istate mem sz =
      Inr (None, istate\<lparr>fsmonitor_last_update := Some tok, fsmonitor_dirty := Some dirty\<rparr>)"
    by (auto simp: read_fsmonitor_extension_def assert_index_minimum_def cache_nr_def Let_def)
qed

text \<open>
  A version 2 extension with token \<open>T9\<close> that declares \<open>0xFFFFFFFF\<close> bitmap bytes and holds
  one: the reader fails with \<open>-1\<close>, and the extension is accepted with an empty bitmap.
\<close>

theorem failed_decode_accepted_witness:
  "bytewise_reader [CHR 0x01] (unat (0xFFFFFFFF :: 32 word)) = (- 1, [])
   \<and> (- 1 :: int) \<noteq> uint (0xFFFFFFFF :: 32 word)
   \<and> read_fsmonitor_extension bytewise_reader (index_of [entry ''a'' True] (Some ''T0''))
      (put_be32 2 @ ''T9'' @ NUL # put_be32 0xFFFFFFFF @ [CHR 0x01]) 12 =
     Inr (None, (index_of [entry ''a'' True] (Some ''T0''))
                  \<lparr>fsmonitor_last_update := Some ''T9'', fsmonitor_dirty := Some []\<rparr>)"
proof -
  let ?m = "put_be32 2 @ ''T9'' @ NUL # put_be32 0xFFFFFFFF @ [CHR 0x01]"
  have nul: "NUL \<notin> set ''T9''" by (simp add: NUL_def)
  have tok: "read_token ?m 2 = Inr (Some (''T9'', 7))"
    using read_token_v2 [OF nul] by simp
  have size: "get_be32 ?m 7 = Some 0xFFFFFFFF"
    using get_be32_after_token [of 2 "''T9''" "0xFFFFFFFF" "[CHR 0x01]"] by simp
  have rd: "bytewise_reader [CHR 0x01] (unat (0xFFFFFFFF :: 32 word)) = (- 1, [])"
    by (simp add: bytewise_reader_def)
  from failed_decode_accepted
    [where sz = 12 and mem = ?m and v = 2 and tok = "''T9''" and index = 7
       and ewah_size = "0xFFFFFFFF" and rd = bytewise_reader and ret = "- 1" and dirty = "[]"
       and istate = "index_of [entry ''a'' True] (Some ''T0'')"]
    tok size rd
  show ?thesis
    by (simp add: get_be32_0 bit_size_def)
qed

section \<open>Writing the extension and reading it back\<close>

lemma ewah_bits_ewah_set: "ewah_bits (ewah_set b i) = insert i (ewah_bits b)"
  by (auto simp: ewah_bits_def ewah_set_def nth_append nth_list_update split: if_splits)

lemma length_ewah_set: "length (ewah_set b i) = max (length b) (Suc i)"
  by (simp add: ewah_set_def)

lemma fill_loop_bits:
  assumes "skipped \<le> i" and "length dirty \<le> i - skipped"
  shows "ewah_bits (fill_loop ces i skipped dirty) =
           ewah_bits dirty \<union>
           {(i - skipped) + k | k. k < length (live_entries ces) \<and> \<not> ce_valid (live_entries ces ! k)}
         \<and> length (fill_loop ces i skipped dirty) \<le> (i - skipped) + length (live_entries ces)"
  using assms
proof (induction ces arbitrary: i skipped dirty)
  case Nil
  then show ?case by (simp add: live_entries_def)
next
  case (Cons ce ces)
  show ?case
  proof (cases "ce_removed ce")
    case True
    have "Suc skipped \<le> Suc i" "length dirty \<le> Suc i - Suc skipped"
      using Cons.prems by simp_all
    from Cons.IH [OF this] True show ?thesis
      by (simp add: live_entries_def)
  next
    case False
    let ?j = "i - skipped"
    have j: "Suc i - skipped = Suc ?j" using Cons.prems by simp
    have live: "live_entries (ce # ces) = ce # live_entries ces"
      using False by (simp add: live_entries_def)
    have shift: "{?j + k | k. k < length (ce # live_entries ces) \<and> \<not> ce_valid ((ce # live_entries ces) ! k)} =
        (if ce_valid ce then {} else {?j}) \<union>
        {Suc ?j + k | k. k < length (live_entries ces) \<and> \<not> ce_valid (live_entries ces ! k)}"
      (is "?L = ?R")
    proof (rule set_eqI)
      fix x
      show "x \<in> ?L \<longleftrightarrow> x \<in> ?R"
      proof
        assume "x \<in> ?L"
        then obtain k where k: "x = ?j + k" "k < length (ce # live_entries ces)"
          "\<not> ce_valid ((ce # live_entries ces) ! k)" by blast
        then show "x \<in> ?R"
          by (cases k) auto
      next
        assume "x \<in> ?R"
        then consider "\<not> ce_valid ce" "x = ?j"
          | k where "x = Suc ?j + k" "k < length (live_entries ces)" "\<not> ce_valid (live_entries ces ! k)"
          by (auto split: if_splits)
        then show "x \<in> ?L"
        proof cases
          case 1
          then have "x = ?j + 0 \<and> 0 < length (ce # live_entries ces) \<and> \<not> ce_valid ((ce # live_entries ces) ! 0)"
            by simp
          then show ?thesis by blast
        next
          case 2
          then have "x = ?j + Suc k \<and> Suc k < length (ce # live_entries ces) \<and>
              \<not> ce_valid ((ce # live_entries ces) ! Suc k)" by simp
          then show ?thesis by blast
        qed
      qed
    qed
    show ?thesis
    proof (cases "ce_valid ce")
      case True
      have eq: "fill_loop (ce # ces) i skipped dirty = fill_loop ces (Suc i) skipped dirty"
        using True False by simp
      have "skipped \<le> Suc i" "length dirty \<le> Suc i - skipped"
        using Cons.prems by simp_all
      from Cons.IH [OF this]
      have IH: "ewah_bits (fill_loop ces (Suc i) skipped dirty) =
          ewah_bits dirty \<union>
          {Suc ?j + k | k. k < length (live_entries ces) \<and> \<not> ce_valid (live_entries ces ! k)}"
        "length (fill_loop ces (Suc i) skipped dirty) \<le> Suc ?j + length (live_entries ces)"
        unfolding j by simp_all
      show ?thesis
        unfolding eq live shift IH(1) using IH(2) True by simp
    next
      case nv: False
      have eq: "fill_loop (ce # ces) i skipped dirty =
          fill_loop ces (Suc i) skipped (ewah_set dirty ?j)"
        using nv False by simp
      have "skipped \<le> Suc i" "length (ewah_set dirty ?j) \<le> Suc i - skipped"
        using Cons.prems by (simp_all add: length_ewah_set j)
      from Cons.IH [OF this]
      have IH: "ewah_bits (fill_loop ces (Suc i) skipped (ewah_set dirty ?j)) =
          ewah_bits (ewah_set dirty ?j) \<union>
          {Suc ?j + k | k. k < length (live_entries ces) \<and> \<not> ce_valid (live_entries ces ! k)}"
        "length (fill_loop ces (Suc i) skipped (ewah_set dirty ?j)) \<le>
          Suc ?j + length (live_entries ces)"
        unfolding j by simp_all
      show ?thesis
        unfolding eq live shift IH(1) ewah_bits_ewah_set using IH(2) nv by simp
    qed
  qed
qed

lemma fill_bitmap:
  assumes "fsmonitor_dirty (fill_fsmonitor_bitmap istate) = Some dirty"
  shows "ewah_bits dirty = {k. k < length (live_entries (cache istate)) \<and>
                              \<not> ce_valid (live_entries (cache istate) ! k)}"
    and "bit_size dirty \<le> length (live_entries (cache istate))"
    and "length (live_entries (cache istate)) \<le> cache_nr istate"
proof -
  have d: "dirty = fill_loop (cache istate) 0 0 ewah_new"
    using assms by (simp add: fill_fsmonitor_bitmap_def)
  have "(0::nat) \<le> 0" "length ewah_new \<le> 0 - 0" by (simp_all add: ewah_new_def)
  from fill_loop_bits [OF this, of "cache istate"]
  show "ewah_bits dirty = {k. k < length (live_entries (cache istate)) \<and>
                              \<not> ce_valid (live_entries (cache istate) ! k)}"
    and "bit_size dirty \<le> length (live_entries (cache istate))"
    by (simp_all add: d ewah_bits_def ewah_new_def bit_size_def)
  show "length (live_entries (cache istate)) \<le> cache_nr istate"
    by (simp add: live_entries_def cache_nr_def)
qed

lemma write_fsmonitor_extension_bytes:
  assumes "fsmonitor_dirty istate = Some dirty" and "fsmonitor_last_update istate = Some tok"
    and "split_index istate \<or> bit_size dirty \<le> cache_nr istate"
  shows "write_fsmonitor_extension ser sb istate =
           Inr (sb @ put_be32 2 @ tok @ NUL # put_be32 (word_of_nat (length (ser dirty))) @ ser dirty,
                istate\<lparr>fsmonitor_dirty := None\<rparr>)"
  using assms
  by (auto simp: write_fsmonitor_extension_def assert_index_minimum_def Let_def)

lemma unat_word_of_nat_32: "n < 2 ^ 32 \<Longrightarrow> unat (word_of_nat n :: 32 word) = n"
  by (simp add: unat_of_nat)

lemma ce_valid_entry [simp]: "ce_valid (entry n v) = v"
  by (simp add: ce_valid_bit entry_def CE_FSMONITOR_VALID_def)

lemma ce_removed_entry [simp]: "\<not> ce_removed (entry n v)"
  by (simp add: ce_removed_bit entry_def CE_FSMONITOR_VALID_def)

lemma ce_removed_removed_entry [simp]: "ce_removed (removed_entry n)"
  by (simp add: ce_removed_bit removed_entry_def CE_REMOVE_def)

lemma ce_name_entry [simp]: "ce_name (entry n v) = n"
  by (simp add: entry_def)

text \<open>
  Claim C5. Let the bitmap be the one \<open>fill_fsmonitor_bitmap\<close> computes (removed entries
  take no position; the bit of a live entry is set exactly when the entry lacks
  \<open>CE_FSMONITOR_VALID\<close>). \<open>write_fsmonitor_extension\<close> then emits the version word 2, the
  token, one NUL, the length of the serialised bitmap and the serialised bitmap; reading
  these bytes back stores the same token and the same bitmap. The token is a C string
  (no NUL inside), the serialised bitmap is shorter than \<open>2^32\<close> bytes (its length is
  written as a \<^verbatim>\<open>uint32_t\<close>), the EWAH reader returns this bitmap and its length when
  given its serialised form, and the index read into has room for the live entries or is
  a split index.
\<close>

theorem extension_round_trip:
  assumes "fsmonitor_last_update istate = Some tok" and "NUL \<notin> set tok"
    and "fsmonitor_dirty (fill_fsmonitor_bitmap istate) = Some dirty"
    and "length (ser dirty) < 2 ^ 32"
    and "rd (ser dirty @ rest) (length (ser dirty)) = (int (length (ser dirty)), dirty)"
    and "split_index fresh \<or> length (live_entries (cache istate)) \<le> cache_nr fresh"
    and "blob = put_be32 2 @ tok @ NUL # put_be32 (word_of_nat (length (ser dirty))) @ ser dirty"
  shows "write_fsmonitor_extension ser [] (fill_fsmonitor_bitmap istate) =
           Inr (blob, (fill_fsmonitor_bitmap istate)\<lparr>fsmonitor_dirty := None\<rparr>)
         \<and> read_fsmonitor_extension rd fresh (blob @ rest) (length blob) =
           Inr (None, fresh\<lparr>fsmonitor_last_update := Some tok, fsmonitor_dirty := Some dirty\<rparr>)
         \<and> ewah_bits dirty = {k. k < length (live_entries (cache istate)) \<and>
                                  \<not> ce_valid (live_entries (cache istate) ! k)}"
proof (intro conjI)
  note fb = fill_bitmap [OF assms(3)]
  let ?filled = "fill_fsmonitor_bitmap istate"
  have "fsmonitor_last_update ?filled = Some tok" "cache_nr ?filled = cache_nr istate"
    using assms(1) by (simp_all add: fill_fsmonitor_bitmap_def cache_nr_def)
  moreover have "bit_size dirty \<le> cache_nr istate" using fb(2,3) by simp
  ultimately show "write_fsmonitor_extension ser [] ?filled =
      Inr (blob, ?filled\<lparr>fsmonitor_dirty := None\<rparr>)"
    using write_fsmonitor_extension_bytes [of ?filled dirty tok ser "[]"] assms(3,7) by simp
  show "ewah_bits dirty = {k. k < length (live_entries (cache istate)) \<and>
                              \<not> ce_valid (live_entries (cache istate) ! k)}"
    by (rule fb(1))
  let ?n = "word_of_nat (length (ser dirty)) :: 32 word"
  have mem: "blob @ rest = put_be32 2 @ tok @ NUL # put_be32 ?n @ (ser dirty @ rest)"
    by (simp add: assms(7))
  have len: "9 \<le> length blob" by (simp add: assms(7))
  have v: "get_be32 (blob @ rest) 0 = Some 2"
    unfolding mem by (rule get_be32_0)
  have t: "read_token (blob @ rest) 2 = Inr (Some (tok, 4 + (length tok + 1)))"
    unfolding mem by (rule read_token_v2 [OF assms(2)])
  have s: "get_be32 (blob @ rest) (4 + (length tok + 1)) = Some ?n"
    unfolding mem by (rule get_be32_after_token)
  have d: "drop (4 + (length tok + 1) + 4) (blob @ rest) = ser dirty @ rest"
    unfolding mem by simp
  have r: "rd (drop (4 + (length tok + 1) + 4) (blob @ rest)) (unat ?n) = (int (length (ser dirty)), dirty)"
    unfolding d using assms(4,5) by (simp add: unat_word_of_nat_32)
  have a: "split_index fresh \<or> bit_size dirty \<le> cache_nr fresh"
    using assms(6) fb(2) by auto
  show "read_fsmonitor_extension rd fresh (blob @ rest) (length blob) =
      Inr (None, fresh\<lparr>fsmonitor_last_update := Some tok, fsmonitor_dirty := Some dirty\<rparr>)"
    using len v t s r a
    by (auto simp: read_fsmonitor_extension_def assert_index_minimum_def cache_nr_def Let_def)
qed

text \<open>
  Scenario S5 of the spec: ten live entries with dirty set \<open>{1, 4, 7}\<close> and a removed entry
  at position 3, written and read into a fresh index.
\<close>

theorem extension_round_trip_witness:
  "write_fsmonitor_extension bytewise_serializer [] (fill_fsmonitor_bitmap scenario_s5) =
     Inr (put_be32 2 @ ''T0'' @ NUL # put_be32 8 @
            [CHR 0x00, CHR 0x01, CHR 0x00, CHR 0x00, CHR 0x01, CHR 0x00, CHR 0x00, CHR 0x01],
          (fill_fsmonitor_bitmap scenario_s5)\<lparr>fsmonitor_dirty := None\<rparr>)
   \<and> read_fsmonitor_extension bytewise_reader scenario_s5_fresh
       (put_be32 2 @ ''T0'' @ NUL # put_be32 8 @
            [CHR 0x00, CHR 0x01, CHR 0x00, CHR 0x00, CHR 0x01, CHR 0x00, CHR 0x00, CHR 0x01]) 19 =
     Inr (None, scenario_s5_fresh
                  \<lparr>fsmonitor_last_update := Some ''T0'',
                     fsmonitor_dirty := Some [False, True, False, False, True, False, False, True]\<rparr>)"
proof -
  let ?dirty = "[False, True, False, False, True, False, False, True]"
  let ?blob = "put_be32 2 @ ''T0'' @ NUL # put_be32 8 @
      [CHR 0x00, CHR 0x01, CHR 0x00, CHR 0x00, CHR 0x01, CHR 0x00, CHR 0x00, CHR 0x01]"
  have 1: "fsmonitor_last_update scenario_s5 = Some ''T0''"
    by (simp add: scenario_s5_def index_of_def)
  have 2: "NUL \<notin> set ''T0''" by (simp add: NUL_def)
  have 3: "fsmonitor_dirty (fill_fsmonitor_bitmap scenario_s5) = Some ?dirty"
    by (simp add: fill_fsmonitor_bitmap_def scenario_s5_def index_of_def ewah_set_def ewah_new_def)
  have 4: "length (bytewise_serializer ?dirty) < 2 ^ 32"
    by (simp add: bytewise_serializer_def)
  have 5: "bytewise_reader (bytewise_serializer ?dirty @ []) (length (bytewise_serializer ?dirty)) =
      (int (length (bytewise_serializer ?dirty)), ?dirty)"
    by (simp add: bytewise_serializer_def bytewise_reader_def)
  have 6: "split_index scenario_s5_fresh \<or>
      length (live_entries (cache scenario_s5)) \<le> cache_nr scenario_s5_fresh"
    by (simp add: scenario_s5_def scenario_s5_fresh_def index_of_def live_entries_def cache_nr_def)
  have 7: "?blob = put_be32 2 @ ''T0'' @ NUL #
      put_be32 (word_of_nat (length (bytewise_serializer ?dirty))) @ bytewise_serializer ?dirty"
    by (simp add: bytewise_serializer_def)
  from extension_round_trip
      [where ser = bytewise_serializer and rd = bytewise_reader and rest = "[]", OF 1 2 3 4 5 6 7]
  show ?thesis by simp
qed

section \<open>One path of a response\<close>

lemma name_pos_from_found:
  "name_pos_from ces name i = int p \<Longrightarrow>
     i \<le> p \<and> p - i < length ces \<and> ce_name (ces ! (p - i)) = name"
proof (induction ces arbitrary: i)
  case Nil
  then show ?case by simp
next
  case (Cons ce ces)
  show ?case
  proof (cases "ce_name ce = name")
    case True
    then show ?thesis using Cons.prems by simp
  next
    case False
    then have "name_pos_from ces name (Suc i) = int p" using Cons.prems by simp
    from Cons.IH [OF this] show ?thesis
      by (auto simp: Suc_diff_le)
  qed
qed

lemma name_pos_from_neg:
  "(name_pos_from ces name i < 0) = (name \<notin> ce_name ` set ces)"
  by (induction ces arbitrary: i) auto

lemma index_name_pos_found:
  "index_name_pos istate name = int p \<Longrightarrow> p < cache_nr istate \<and> ce_name (cache istate ! p) = name"
  using name_pos_from_found [of "cache istate" name 0 p]
  by (simp add: index_name_pos_def cache_nr_def)

lemma index_name_pos_neg:
  "(index_name_pos istate name < 0) = (name \<notin> ce_name ` set (cache istate))"
  by (simp add: index_name_pos_def name_pos_from_neg)

lemma mark_folder_map:
  "map (\<lambda>ce. if ce_valid ce \<and> starts_with (ce_name ce) name then clear_valid ce else ce) ces =
   map (\<lambda>ce. if starts_with (ce_name ce) name then clear_valid ce else ce) ces"
  by (rule map_cong) (auto simp: clear_valid_idem)

text \<open>
  Claim C4, as the code has it. For a path ending in \<open>/\<close> the callback clears
  \<open>CE_FSMONITOR_VALID\<close> on every entry, removed or not, whose path begins with the path
  including its slash: an entry whose path is the directory name itself, or continues it
  with another character than \<open>/\<close>, does not match. The slash is stripped afterwards, for
  the untracked cache only. For a path not ending in \<open>/\<close> the entry \<open>index_name_pos\<close> finds,
  if any, is cleared, and the untracked cache is told the path either way.
\<close>

theorem fsmonitor_refresh_callback_effect:
  "(name \<noteq> [] \<and> last name = CHR ''/'' \<longrightarrow>
      fsmonitor_refresh_callback istate prev name =
        Inr (istate\<lparr>cache := map (\<lambda>ce. if starts_with (ce_name ce) name then clear_valid ce else ce)
                                 (cache istate),
                     uc_invalidated := uc_invalidated istate @ [butlast name]\<rparr>))
   \<and> \<not> starts_with d (d @ ''/'')
   \<and> (c \<noteq> CHR ''/'' \<longrightarrow> \<not> starts_with (d @ c # rest) (d @ ''/''))
   \<and> (name \<noteq> [] \<and> last name \<noteq> CHR ''/'' \<and> index_name_pos istate name = int pos \<longrightarrow>
        pos < cache_nr istate \<and> ce_name (cache istate ! pos) = name \<and>
        fsmonitor_refresh_callback istate prev name =
          Inr (istate\<lparr>cache := (cache istate)[pos := clear_valid (cache istate ! pos)],
                       uc_invalidated := uc_invalidated istate @ [name]\<rparr>))
   \<and> (name \<noteq> [] \<and> last name \<noteq> CHR ''/'' \<and> index_name_pos istate name < 0 \<longrightarrow>
        name \<notin> ce_name ` set (cache istate) \<and>
        fsmonitor_refresh_callback istate prev name =
          Inr (istate\<lparr>uc_invalidated := uc_invalidated istate @ [name]\<rparr>))"
proof (intro conjI impI)
  show "fsmonitor_refresh_callback istate prev name =
        Inr (istate\<lparr>cache := map (\<lambda>ce. if starts_with (ce_name ce) name then clear_valid ce else ce)
                                 (cache istate),
                     uc_invalidated := uc_invalidated istate @ [butlast name]\<rparr>)"
    if "name \<noteq> [] \<and> last name = CHR ''/''"
    using that
    by (simp add: fsmonitor_refresh_callback_def untracked_cache_invalidate_path_def mark_folder_map)
  show "\<not> starts_with d (d @ ''/'')"
    by (simp add: starts_with_def)
  show "\<not> starts_with (d @ c # rest) (d @ ''/'')" if "c \<noteq> CHR ''/''"
    using that by (simp add: starts_with_def)
  assume found: "name \<noteq> [] \<and> last name \<noteq> CHR ''/'' \<and> index_name_pos istate name = int pos"
  then show "pos < cache_nr istate" "ce_name (cache istate ! pos) = name"
    using index_name_pos_found [of istate name pos] by simp_all
  show "fsmonitor_refresh_callback istate prev name =
          Inr (istate\<lparr>cache := (cache istate)[pos := clear_valid (cache istate ! pos)],
                       uc_invalidated := uc_invalidated istate @ [name]\<rparr>)"
    using found
    by (simp add: fsmonitor_refresh_callback_def untracked_cache_invalidate_path_def)
next
  assume missing: "name \<noteq> [] \<and> last name \<noteq> CHR ''/'' \<and> index_name_pos istate name < 0"
  then show "name \<notin> ce_name ` set (cache istate)"
    by (simp add: index_name_pos_neg)
  show "fsmonitor_refresh_callback istate prev name =
          Inr (istate\<lparr>uc_invalidated := uc_invalidated istate @ [name]\<rparr>)"
    using missing
    by (simp add: fsmonitor_refresh_callback_def untracked_cache_invalidate_path_def)
qed

text \<open>
  Scenario S2 of the spec (with an entry named like the directory), a tracked file and an
  untracked one.
\<close>

theorem fsmonitor_refresh_callback_effect_witness:
  "fsmonitor_refresh_callback
      (index_of [entry ''src'' True, entry ''src/a'' True, entry ''src/b'' True, entry ''test/c'' True]
         (Some ''T0'')) (Some NUL) ''src/'' =
     Inr ((index_of [entry ''src'' True, clear_valid (entry ''src/a'' True),
                     clear_valid (entry ''src/b'' True), entry ''test/c'' True] (Some ''T0''))
            \<lparr>uc_invalidated := [''src'']\<rparr>)
   \<and> fsmonitor_refresh_callback
      (index_of [entry ''a'' True, entry ''b'' True, entry ''c'' True] (Some ''T0'')) (Some NUL) ''b'' =
     Inr ((index_of [entry ''a'' True, clear_valid (entry ''b'' True), entry ''c'' True] (Some ''T0''))
            \<lparr>uc_invalidated := [''b'']\<rparr>)
   \<and> fsmonitor_refresh_callback
      (index_of [entry ''a'' True, entry ''b'' True, entry ''c'' True] (Some ''T0'')) (Some NUL) ''new'' =
     Inr ((index_of [entry ''a'' True, entry ''b'' True, entry ''c'' True] (Some ''T0''))
            \<lparr>uc_invalidated := [''new'']\<rparr>)"
proof -
  let ?i = "index_of [entry ''src'' True, entry ''src/a'' True, entry ''src/b'' True,
                      entry ''test/c'' True] (Some ''T0'')"
  let ?j = "index_of [entry ''a'' True, entry ''b'' True, entry ''c'' True] (Some ''T0'')"
  note dir = fsmonitor_refresh_callback_effect [THEN conjunct1, rule_format]
  note found = fsmonitor_refresh_callback_effect
    [THEN conjunct2, THEN conjunct2, THEN conjunct2, THEN conjunct1, rule_format]
  note missing = fsmonitor_refresh_callback_effect
    [THEN conjunct2, THEN conjunct2, THEN conjunct2, THEN conjunct2, rule_format]
  have "fsmonitor_refresh_callback ?i (Some NUL) ''src/'' =
      Inr ((index_of [entry ''src'' True, clear_valid (entry ''src/a'' True),
                      clear_valid (entry ''src/b'' True), entry ''test/c'' True] (Some ''T0''))
             \<lparr>uc_invalidated := [''src'']\<rparr>)"
    using dir [of "''src/''" ?i "Some NUL"] by (simp add: index_of_def starts_with_def)
  moreover have "fsmonitor_refresh_callback ?j (Some NUL) ''b'' =
      Inr ((index_of [entry ''a'' True, clear_valid (entry ''b'' True), entry ''c'' True] (Some ''T0''))
             \<lparr>uc_invalidated := [''b'']\<rparr>)"
    using found [of "''b''" ?j 1 "Some NUL"] by (simp add: index_of_def index_name_pos_def)
  moreover have "fsmonitor_refresh_callback ?j (Some NUL) ''new'' =
      Inr ((index_of [entry ''a'' True, entry ''b'' True, entry ''c'' True] (Some ''T0''))
             \<lparr>uc_invalidated := [''new'']\<rparr>)"
    using missing [of "''new''" ?j "Some NUL"] by (simp add: index_of_def index_name_pos_def)
  ultimately show ?thesis by blast
qed

text \<open>
  The claim as written fails: for the path \<open>src/\<close> the entries \<open>src\<close> and \<open>srcx\<close> begin with
  the stripped prefix \<open>src\<close>, are not removed, and keep \<open>CE_FSMONITOR_VALID\<close>. Each tuple is
  the path, whether it begins with the stripped prefix, whether the entry is removed, and
  whether it is still valid afterwards.
\<close>

theorem callback_stripped_prefix_counterexample:
  "(case fsmonitor_refresh_callback
           (index_of [entry ''src'' True, entry ''src/a'' True, entry ''srcx'' True] (Some ''T0''))
           (Some NUL) ''src/'' of
      Inl e \<Rightarrow> []
    | Inr s \<Rightarrow> map (\<lambda>ce. (ce_name ce, starts_with (ce_name ce) (butlast ''src/''),
                         ce_removed ce, ce_valid ce)) (cache s)) =
   [(''src'', True, False, True), (''src/a'', True, False, False), (''srcx'', True, False, True)]"
  by (simp add: fsmonitor_refresh_callback_def untracked_cache_invalidate_path_def index_of_def
      starts_with_def)

section \<open>The path loop\<close>

text \<open>
  The loop over the response buffer calls the callback on the paths of the spec's path
  list, in order, and counts them.
\<close>

lemma take_drop_step:
  assumes "start \<le> i" and "i < length buf"
  shows "take (Suc i - start) (drop start buf) = take (i - start) (drop start buf) @ [buf ! i]"
proof -
  have "Suc i - start = Suc (i - start)" using assms by simp
  moreover have "i - start < length (drop start buf)" using assms by simp
  moreover have "drop start buf ! (i - start) = buf ! i" using assms by simp
  ultimately show ?thesis by (simp add: take_Suc_conv_app_nth)
qed

lemma drop_start_split:
  assumes "start \<le> i" and "i < length buf"
  shows "drop start buf = take (i - start) (drop start buf) @ buf ! i # drop (Suc i) buf"
proof -
  have "drop start buf = take (i - start) (drop start buf) @ drop (i - start) (drop start buf)"
    by (simp only: append_take_drop_id)
  also have "drop (i - start) (drop start buf) = drop i buf" using assms by simp
  also have "drop i buf = buf ! i # drop (Suc i) buf" using assms by (simp add: Cons_nth_drop_Suc)
  finally show ?thesis .
qed

lemma cstr_all: "NUL \<notin> set xs \<Longrightarrow> cstr xs = xs"
  by (auto simp: cstr_def)

lemma paths_from_apply_paths:
  assumes "start \<le> i" and "i \<le> length buf"
    and "NUL \<notin> set (take (i - start) (drop start buf))"
  shows "paths_from istate buf start i n =
           (case apply_paths istate (byte_before buf start)
                   (split_acc (take (i - start) (drop start buf)) (drop i buf)) of
              Inl e \<Rightarrow> Inl e
            | Inr s \<Rightarrow>
                Inr (s, n + int (length (split_acc (take (i - start) (drop start buf)) (drop i buf)))))"
  using assms
proof (induction istate buf start i n rule: path_loop.induct)
  case (1 istate buf start i n)
  let ?acc = "take (i - start) (drop start buf)"
  show ?case
  proof (cases "i < length buf")
    case False
    then have i: "i = length buf" using "1.prems" by simp
    have loop: "path_loop istate buf start i n = Inr (istate, start, n)"
      using False by (simp add: path_loop.simps)
    have acc: "?acc = drop start buf" using i by simp
    show ?thesis
    proof (cases "start < length buf")
      case True
      then have ne: "drop start buf \<noteq> []" by simp
      have "cstr (drop start buf) = drop start buf"
        using "1.prems"(3) acc by (simp add: cstr_all)
      then show ?thesis
        unfolding paths_from_def loop acc using True ne i by (simp split: sum.splits)
    next
      case False
      then show ?thesis
        unfolding paths_from_def loop acc using i by simp
    qed
  next
    case True
    note lt = True
    show ?thesis
    proof (cases "buf ! i = NUL")
      case False
      have step: "paths_from istate buf start i n = paths_from istate buf start (Suc i) n"
        using lt False by (simp add: paths_from_def path_loop.simps [of istate buf start i n])
      have acc': "take (Suc i - start) (drop start buf) = ?acc @ [buf ! i]"
        using take_drop_step [OF "1.prems"(1) lt] .
      have "NUL \<notin> set (take (Suc i - start) (drop start buf))"
        using "1.prems"(3) False unfolding acc' by auto
      with "1.IH"(1) [OF lt] False "1.prems"(1) lt
      have IH: "paths_from istate buf start (Suc i) n =
          (case apply_paths istate (byte_before buf start)
                  (split_acc (take (Suc i - start) (drop start buf)) (drop (Suc i) buf)) of
             Inl e \<Rightarrow> Inl e
           | Inr s \<Rightarrow> Inr (s, n + int (length (split_acc (take (Suc i - start) (drop start buf))
                                                    (drop (Suc i) buf)))))"
        by simp
      have sp: "split_acc ?acc (drop i buf) = split_acc (?acc @ [buf ! i]) (drop (Suc i) buf)"
        using lt False by (simp flip: Cons_nth_drop_Suc)
      show ?thesis unfolding step IH acc' sp by (rule refl)
    next
      case True
      note nul = True
      have name: "cstr (drop start buf) = ?acc"
        using drop_start_split [OF "1.prems"(1) lt] cstr_append_NUL [OF "1.prems"(3)] nul
        by metis
      have sp: "split_acc ?acc (drop i buf) = ?acc # split_acc [] (drop (Suc i) buf)"
        using lt nul by (simp flip: Cons_nth_drop_Suc)
      show ?thesis
      proof (cases "fsmonitor_refresh_callback istate (byte_before buf start) ?acc")
        case (Inl e)
        then show ?thesis
          using lt nul name
          by (simp add: paths_from_def path_loop.simps [of istate buf start i n] sp)
      next
        case (Inr istate')
        have step: "paths_from istate buf start i n = paths_from istate' buf (Suc i) (Suc i) (n + 1)"
          using lt nul name Inr
          by (simp add: paths_from_def path_loop.simps [of istate buf start i n])
        have "paths_from istate' buf (Suc i) (Suc i) (n + 1) =
          (case apply_paths istate' (byte_before buf (Suc i))
                  (split_acc (take (Suc i - Suc i) (drop (Suc i) buf)) (drop (Suc i) buf)) of
             Inl e \<Rightarrow> Inl e
           | Inr s \<Rightarrow> Inr (s, n + 1 + int (length (split_acc (take (Suc i - Suc i) (drop (Suc i) buf))
                                                    (drop (Suc i) buf)))))"
          using "1.IH"(2) [OF lt _ _] nul name Inr lt by simp
        moreover have "byte_before buf (Suc i) = Some NUL"
          using lt nul by (simp add: byte_before_def buf_at_def)
        ultimately show ?thesis
          unfolding step sp using Inr by (simp split: sum.splits)
      qed
    qed
  qed
qed

lemma mark_paths_apply_paths:
  assumes "start \<le> length buf"
  shows "mark_paths istate buf start =
           (case apply_paths istate (byte_before buf start) (response_paths buf start) of
              Inl e \<Rightarrow> Inl e
            | Inr s \<Rightarrow>
                Inr (if int (length (response_paths buf start)) > fsmonitor_force_update_threshold
                     then (set_use_fsmonitor True s)
                            \<lparr>cache_changed := cache_changed (set_use_fsmonitor True s) OR FSMONITOR_CHANGED\<rparr>
                     else set_use_fsmonitor True s))"
  using paths_from_apply_paths [of start start buf istate 0] assms
  by (simp add: mark_paths_def response_paths_def Let_def split: sum.splits)

section \<open>What a refresh may change\<close>

lemma clear_valid_twice [simp]: "clear_valid (clear_valid ce) = clear_valid ce"
  by (simp add: clear_valid_idem)

lemma entries_only_cleared_refl [simp]: "entries_only_cleared ces ces"
  by (simp add: entries_only_cleared_def list_all2_same)

lemma entries_only_cleared_trans:
  "entries_only_cleared a b \<Longrightarrow> entries_only_cleared b c \<Longrightarrow> entries_only_cleared a c"
  unfolding entries_only_cleared_def list_all2_conv_all_nth
  by (metis clear_valid_twice)

lemma entries_only_cleared_map:
  "entries_only_cleared ces (map (\<lambda>ce. if P ce then clear_valid ce else ce) ces)"
  by (simp add: entries_only_cleared_def list_all2_map2 list_all2_same)

lemma entries_only_cleared_update:
  "entries_only_cleared ces (ces[i := clear_valid (ces ! i)])"
  unfolding entries_only_cleared_def list_all2_conv_all_nth
  by (metis length_list_update nth_list_update_eq nth_list_update_neq)

lemma entries_only_cleared_length:
  "entries_only_cleared a b \<Longrightarrow> length b = length a"
  by (simp add: entries_only_cleared_def list_all2_lengthD)

lemma entries_only_cleared_nth:
  "entries_only_cleared a b \<Longrightarrow> i < length a \<Longrightarrow>
     ce_name (b ! i) = ce_name (a ! i) \<and> ce_removed (b ! i) = ce_removed (a ! i) \<and>
     (ce_valid (b ! i) \<longrightarrow> ce_valid (a ! i))"
  by (auto simp: entries_only_cleared_def list_all2_conv_all_nth)

lemma callback_frame:
  assumes "fsmonitor_refresh_callback istate prev p = Inr s"
  shows "entries_only_cleared (cache istate) (cache s)
       \<and> s = istate\<lparr>cache := cache s, uc_invalidated := uc_invalidated s\<rparr>"
  using assms
  by (auto simp: fsmonitor_refresh_callback_def untracked_cache_invalidate_path_def Let_def
      entries_only_cleared_map entries_only_cleared_update
      split: option.splits if_splits)

lemma apply_paths_frame:
  "apply_paths istate prev ps = Inr s \<Longrightarrow>
     entries_only_cleared (cache istate) (cache s)
     \<and> s = istate\<lparr>cache := cache s, uc_invalidated := uc_invalidated s\<rparr>"
proof (induction ps arbitrary: istate prev)
  case Nil
  then show ?case by auto
next
  case (Cons p ps)
  then obtain s1 where 1: "fsmonitor_refresh_callback istate prev p = Inr s1"
    and 2: "apply_paths s1 (Some NUL) ps = Inr s"
    by (auto split: sum.splits)
  from callback_frame [OF 1] Cons.IH [OF 2] show ?case
    by (metis (no_types, lifting) entries_only_cleared_trans index_state.surjective
        index_state.update_convs(1) index_state.update_convs(8))
qed

lemma callback_returns:
  "prev \<noteq> None \<or> p \<noteq> [] \<Longrightarrow> \<exists>s. fsmonitor_refresh_callback istate prev p = Inr s"
  by (auto simp: fsmonitor_refresh_callback_def Let_def split: option.splits)

lemma apply_paths_returns:
  "prev \<noteq> None \<or> ps = [] \<or> hd ps \<noteq> [] \<Longrightarrow> \<exists>s. apply_paths istate prev ps = Inr s"
proof (induction ps arbitrary: istate prev)
  case Nil
  then show ?case by simp
next
  case (Cons p ps)
  then have "prev \<noteq> None \<or> p \<noteq> []" by auto
  from callback_returns [OF this] obtain s1
    where 1: "fsmonitor_refresh_callback istate prev p = Inr s1" by blast
  have "Some NUL \<noteq> None \<or> ps = [] \<or> hd ps \<noteq> []" by simp
  from Cons.IH [OF this] obtain s where "apply_paths s1 (Some NUL) ps = Inr s" by blast
  with 1 show ?case by simp
qed

section \<open>Applying the results\<close>

lemma invalidate_loop_eq:
  "invalidate_loop ces c = (map clear_valid ces, c \<or> list_ex ce_valid ces)"
  by (induction ces arbitrary: c) (auto simp: clear_valid_idem)

lemma invalidate_all_eq:
  "invalidate_all istate =
     set_use_fsmonitor False
       (istate\<lparr>cache := map clear_valid (cache istate),
               cache_changed := (if list_ex ce_valid (cache istate)
                                 then cache_changed istate OR FSMONITOR_CHANGED
                                 else cache_changed istate)\<rparr>)"
  by (simp add: invalidate_all_def invalidate_loop_eq)

lemma set_use_fsmonitor_fields [simp]:
  "cache (set_use_fsmonitor v s) = cache s"
  "cache_changed (set_use_fsmonitor v s) = cache_changed s"
  "fsmonitor_last_update (set_use_fsmonitor v s) = fsmonitor_last_update s"
  "fsmonitor_dirty (set_use_fsmonitor v s) = fsmonitor_dirty s"
  "fsmonitor_has_run_once (set_use_fsmonitor v s) = fsmonitor_has_run_once s"
  "split_index (set_use_fsmonitor v s) = split_index s"
  "uc_invalidated (set_use_fsmonitor v s) = uc_invalidated s"
  "untracked (set_use_fsmonitor v s) = map_option (\<lambda>u. u\<lparr>use_fsmonitor := v\<rparr>) (untracked s)"
  by (simp_all add: set_use_fsmonitor_def split: option.splits)

lemma apply_results_path_list:
  assumes "query_success l" and "buf_at (query_result l) (bol l) = Some c" and "c \<noteq> CHR ''/''"
  shows "apply_results istate l =
           (case apply_paths istate (byte_before (query_result l) (bol l))
                   (response_paths (query_result l) (bol l)) of
              Inl e \<Rightarrow> Inl e
            | Inr s \<Rightarrow>
                Inr ((set_use_fsmonitor True s)
                       \<lparr>cache_changed :=
                          (if int (length (response_paths (query_result l) (bol l)))
                                > fsmonitor_force_update_threshold
                           then cache_changed s OR FSMONITOR_CHANGED else cache_changed s),
                        fsmonitor_last_update := Some (last_update_token l)\<rparr>))"
proof -
  have "bol l \<le> length (query_result l)"
    using assms(2) by (auto simp: buf_at_def split: if_splits)
  from mark_paths_apply_paths [OF this, of istate] assms show ?thesis
    by (auto simp: apply_results_def is_path_list_def split: sum.splits)
qed

lemma apply_results_invalidate:
  assumes "\<not> query_success l \<or> buf_at (query_result l) (bol l) = Some (CHR ''/'')"
  shows "apply_results istate l =
           Inr ((invalidate_all istate)\<lparr>fsmonitor_last_update := Some (last_update_token l)\<rparr>)"
  using assms by (auto simp: apply_results_def is_path_list_def)

lemma split_acc_replicate_NUL: "split_acc [] (replicate n NUL) = replicate n []"
  by (induction n) simp_all

lemma fsmonitor_is_trivial_response_iff:
  "fsmonitor_is_trivial_response buf = (\<exists>pre. buf = pre @ [NUL, CHR ''/'', NUL])"
proof
  assume "fsmonitor_is_trivial_response buf"
  then have "buf = take (length buf - 3) buf @ [NUL, CHR ''/'', NUL]"
    by (simp add: fsmonitor_is_trivial_response_def)
  then show "\<exists>pre. buf = pre @ [NUL, CHR ''/'', NUL]" ..
next
  assume "\<exists>pre. buf = pre @ [NUL, CHR ''/'', NUL]"
  then show "fsmonitor_is_trivial_response buf"
    by (auto simp: fsmonitor_is_trivial_response_def)
qed

text \<open>
  Claim C7. In the path-list branch (the query succeeded and the byte at \<open>bol\<close> is not
  \<open>/\<close>), \<open>FSMONITOR_CHANGED\<close> is OR-ed into \<open>cache_changed\<close> exactly when the response holds
  more than 100 paths, and \<open>cache_changed\<close> is left as it was otherwise. The number of paths
  is the length of the spec's path list. The branch returns unless the path list starts
  at offset 0 with an empty path, where the callback reads the byte in front of the
  buffer.
\<close>

theorem force_update_threshold:
  assumes "query_success l" and "buf_at (query_result l) (bol l) = Some c" and "c \<noteq> CHR ''/''"
  shows "(apply_results istate l = Inr istate' \<longrightarrow>
            cache_changed istate' =
              (if length (response_paths (query_result l) (bol l)) > 100
               then cache_changed istate OR FSMONITOR_CHANGED else cache_changed istate))
       \<and> (0 < bol l \<or> c \<noteq> NUL \<or> query_result l = [] \<longrightarrow>
            (\<exists>s. apply_results istate l = Inr s))"
proof (intro conjI impI)
  note eq = apply_results_path_list [OF assms, of istate]
  let ?ps = "response_paths (query_result l) (bol l)"
  let ?prev = "byte_before (query_result l) (bol l)"
  show "cache_changed istate' =
      (if length ?ps > 100 then cache_changed istate OR FSMONITOR_CHANGED else cache_changed istate)"
    if "apply_results istate l = Inr istate'"
  proof -
    from that eq obtain s where s: "apply_paths istate ?prev ?ps = Inr s"
      and r: "istate' = (set_use_fsmonitor True s)
                \<lparr>cache_changed :=
                   (if int (length ?ps) > fsmonitor_force_update_threshold
                    then cache_changed s OR FSMONITOR_CHANGED else cache_changed s),
                 fsmonitor_last_update := Some (last_update_token l)\<rparr>"
      by (auto split: sum.splits)
    from apply_paths_frame [OF s] have "cache_changed s = cache_changed istate"
      by (metis index_state.select_convs(2) index_state.surjective index_state.update_convs(1)
          index_state.update_convs(8))
    then show ?thesis
      by (simp add: r fsmonitor_force_update_threshold_def)
  qed
  show "\<exists>s. apply_results istate l = Inr s"
    if ok: "0 < bol l \<or> c \<noteq> NUL \<or> query_result l = []"
  proof -
    have "?prev \<noteq> None \<or> ?ps = [] \<or> hd ?ps \<noteq> []"
    proof (cases "bol l = 0")
      case False
      then show ?thesis
        using assms(2) by (auto simp: byte_before_def buf_at_def split: if_splits)
    next
      case True
      show ?thesis
      proof (cases "query_result l")
        case Nil
        then show ?thesis by (simp add: response_paths_def)
      next
        case (Cons x xs)
        then have "c = x" using assms(2) True by (simp add: buf_at_def)
        then have "x \<noteq> NUL" using ok True Cons by simp
        have "split_acc [] (x # xs) = split_acc [x] xs" using \<open>x \<noteq> NUL\<close> by simp
        moreover have "\<And>acc. acc \<noteq> [] \<Longrightarrow> split_acc acc xs \<noteq> [] \<and> hd (split_acc acc xs) \<noteq> []"
        proof (induction xs)
          case Nil
          then show ?case by simp
        next
          case (Cons y ys)
          then show ?case by (cases "y = NUL") auto
        qed
        ultimately show ?thesis
          using True Cons by (simp add: response_paths_def)
      qed
    qed
    from apply_paths_returns [OF this, of istate] eq show ?thesis
      by auto
  qed
qed

text \<open>
  A response of 101 paths sets the bit, one of 100 paths leaves \<open>cache_changed\<close> at 0.
\<close>

theorem force_update_threshold_witness:
  "(\<exists>s. apply_results (index_of [entry ''a'' True] (Some ''T0''))
           (locals_v2 ''T1'' (replicate 101 NUL)) = Inr s
        \<and> cache_changed s = FSMONITOR_CHANGED)
   \<and> (\<exists>s. apply_results (index_of [entry ''a'' True] (Some ''T0''))
           (locals_v2 ''T1'' (replicate 100 NUL)) = Inr s
        \<and> cache_changed s = 0)"
proof -
  let ?i = "index_of [entry ''a'' True] (Some ''T0'')"
  have paths: "\<And>n. response_paths (query_result (locals_v2 ''T1'' (replicate n NUL)))
      (bol (locals_v2 ''T1'' (replicate n NUL))) = replicate n []"
    by (simp add: locals_v2_def response_paths_def split_acc_replicate_NUL)
  have h: "\<And>n. query_success (locals_v2 ''T1'' (replicate n NUL))"
    "\<And>n. buf_at (query_result (locals_v2 ''T1'' (replicate n NUL)))
        (bol (locals_v2 ''T1'' (replicate n NUL))) = Some NUL"
    "NUL \<noteq> CHR ''/''"
    by (auto simp: locals_v2_def buf_at_def NUL_def nth_append nth_Cons')
  note t = force_update_threshold [OF h]
  from t [THEN conjunct2, rule_format, of 101 ?i]
  obtain s where s: "apply_results ?i (locals_v2 ''T1'' (replicate 101 NUL)) = Inr s"
    by (auto simp: locals_v2_def)
  from t [THEN conjunct1, rule_format, OF s] have "cache_changed s = FSMONITOR_CHANGED"
    by (simp add: paths index_of_def)
  moreover
  from t [THEN conjunct2, rule_format, of 100 ?i]
  obtain s' where s': "apply_results ?i (locals_v2 ''T1'' (replicate 100 NUL)) = Inr s'"
    by (auto simp: locals_v2_def)
  from t [THEN conjunct1, rule_format, OF s'] have "cache_changed s' = 0"
    by (simp add: paths index_of_def)
  ultimately show ?thesis using s s' by blast
qed

text \<open>
  Claim C3, as the code has it. When the query failed or the path list starts with \<open>/\<close>,
  \<open>CE_FSMONITOR_VALID\<close> is cleared on every entry, \<open>FSMONITOR_CHANGED\<close> is OR-ed into
  \<open>cache_changed\<close> exactly when some entry had the bit before, and \<open>use_fsmonitor\<close> of the
  untracked cache is set to false. An empty path list after a successful query does not
  take this branch: no entry is touched and \<open>use_fsmonitor\<close> is set to true.
\<close>

theorem full_invalidation_effects:
  "(\<not> query_success l \<or> buf_at (query_result l) (bol l) = Some (CHR ''/'') \<longrightarrow>
      (\<exists>istate'. apply_results istate l = Inr istate'
         \<and> cache istate' = map clear_valid (cache istate)
         \<and> list_all (\<lambda>ce. \<not> ce_valid ce) (cache istate')
         \<and> cache_changed istate' =
             (if list_ex ce_valid (cache istate)
              then cache_changed istate OR FSMONITOR_CHANGED else cache_changed istate)
         \<and> untracked istate' = map_option (\<lambda>u. u\<lparr>use_fsmonitor := False\<rparr>) (untracked istate)))
   \<and> (query_success l \<and> bol l = length (query_result l) \<longrightarrow>
        apply_results istate l =
          Inr ((set_use_fsmonitor True istate)\<lparr>fsmonitor_last_update := Some (last_update_token l)\<rparr>))"
proof (intro conjI impI)
  assume "\<not> query_success l \<or> buf_at (query_result l) (bol l) = Some (CHR ''/'')"
  from apply_results_invalidate [OF this, of istate]
  show "\<exists>istate'. apply_results istate l = Inr istate'
         \<and> cache istate' = map clear_valid (cache istate)
         \<and> list_all (\<lambda>ce. \<not> ce_valid ce) (cache istate')
         \<and> cache_changed istate' =
             (if list_ex ce_valid (cache istate)
              then cache_changed istate OR FSMONITOR_CHANGED else cache_changed istate)
         \<and> untracked istate' = map_option (\<lambda>u. u\<lparr>use_fsmonitor := False\<rparr>) (untracked istate)"
    by (simp add: invalidate_all_eq list_all_iff)
next
  assume a: "query_success l \<and> bol l = length (query_result l)"
  then have b: "buf_at (query_result l) (bol l) = Some NUL" by (simp add: buf_at_def)
  have c: "NUL \<noteq> CHR ''/''" by (simp add: NUL_def)
  have "response_paths (query_result l) (bol l) = []"
    using a by (simp add: response_paths_def)
  with apply_results_path_list [OF _ b c, of istate] a
  show "apply_results istate l =
      Inr ((set_use_fsmonitor True istate)\<lparr>fsmonitor_last_update := Some (last_update_token l)\<rparr>)"
    by (simp add: fsmonitor_force_update_threshold_def)
qed

text \<open>
  Scenario S3 of the spec, a failed query over an index with nothing to clear, and a
  response that is a token and its NUL only.
\<close>

theorem full_invalidation_effects_witness:
  "(\<exists>s. apply_results (index_of [entry ''a'' True, entry ''b'' False] (Some ''T0''))
           (locals_v2 ''T1'' [CHR ''/'', NUL]) = Inr s
        \<and> cache s = [clear_valid (entry ''a'' True), clear_valid (entry ''b'' False)]
        \<and> list_all (\<lambda>ce. \<not> ce_valid ce) (cache s)
        \<and> cache_changed s = FSMONITOR_CHANGED
        \<and> untracked s = Some \<lparr>use_fsmonitor = False\<rparr>)
   \<and> (\<exists>s. apply_results (index_of [entry ''a'' False, entry ''b'' False] (Some ''T0''))
           ((locals_v2 [] ''a'')\<lparr>query_success := False\<rparr>) = Inr s
        \<and> list_all (\<lambda>ce. \<not> ce_valid ce) (cache s)
        \<and> cache_changed s = 0
        \<and> untracked s = Some \<lparr>use_fsmonitor = False\<rparr>)
   \<and> apply_results (index_of [entry ''a'' True, entry ''b'' False] (Some ''T0''))
           (locals_v2 ''T1'' []) =
       Inr ((index_of [entry ''a'' True, entry ''b'' False] (Some ''T1''))
              \<lparr>untracked := Some \<lparr>use_fsmonitor = True\<rparr>\<rparr>)"
proof -
  let ?i = "index_of [entry ''a'' True, entry ''b'' False] (Some ''T0'')"
  let ?j = "index_of [entry ''a'' False, entry ''b'' False] (Some ''T0'')"
  note b = full_invalidation_effects [THEN conjunct1, rule_format]
  note a = full_invalidation_effects [THEN conjunct2, rule_format]
  have "\<exists>s. apply_results ?i (locals_v2 ''T1'' [CHR ''/'', NUL]) = Inr s
        \<and> cache s = [clear_valid (entry ''a'' True), clear_valid (entry ''b'' False)]
        \<and> list_all (\<lambda>ce. \<not> ce_valid ce) (cache s)
        \<and> cache_changed s = FSMONITOR_CHANGED
        \<and> untracked s = Some \<lparr>use_fsmonitor = False\<rparr>"
    using b [of "locals_v2 ''T1'' [CHR ''/'', NUL]" ?i]
    by (simp add: locals_v2_def buf_at_def index_of_def)
  moreover have "\<exists>s. apply_results ?j ((locals_v2 [] ''a'')\<lparr>query_success := False\<rparr>) = Inr s
        \<and> list_all (\<lambda>ce. \<not> ce_valid ce) (cache s)
        \<and> cache_changed s = 0
        \<and> untracked s = Some \<lparr>use_fsmonitor = False\<rparr>"
    using b [of "(locals_v2 [] ''a'')\<lparr>query_success := False\<rparr>" ?j]
    by (auto simp: locals_v2_def index_of_def)
  moreover have "apply_results ?i (locals_v2 ''T1'' []) =
       Inr ((index_of [entry ''a'' True, entry ''b'' False] (Some ''T1''))
              \<lparr>untracked := Some \<lparr>use_fsmonitor = True\<rparr>\<rparr>)"
    using a [of "locals_v2 ''T1'' []" ?i]
    by (simp add: locals_v2_def index_of_def set_use_fsmonitor_def)
  ultimately show ?thesis by blast
qed

text \<open>
  The claim as written fails in its last sentence: after an IPC success whose response
  holds only a token, both entries are still valid and \<open>use_fsmonitor\<close> is true.
\<close>

theorem empty_path_list_counterexample:
  "refresh_fsmonitor (ipc_repo 0 (''T1'' @ [NUL]))
      (index_of [entry ''a'' True, entry ''b'' True] (Some ''T0'')) =
     Inr ((index_of [entry ''a'' True, entry ''b'' True] (Some ''T1''))
            \<lparr>untracked := Some \<lparr>use_fsmonitor = True\<rparr>, fsmonitor_has_run_once := True\<rparr>)
   \<and> list_all ce_valid [entry ''a'' True, entry ''b'' True]"
  by code_simp

text \<open>
  Claim C1, as the code has it. \<open>fsmonitor_is_trivial_response\<close> holds exactly for the
  buffers that end with NUL, \<open>/\<close>, NUL; only the hook's tracing asks it. The refresh
  engine takes the full-invalidation branch exactly when the query failed or the byte at
  \<open>bol\<close>, the first byte of the path list, is \<open>/\<close>: with an untracked cache present, that
  is when \<open>use_fsmonitor\<close> ends up false and every entry has been cleared.
\<close>

theorem trivial_response_branch:
  "fsmonitor_is_trivial_response buf = (\<exists>pre. buf = pre @ [NUL, CHR ''/'', NUL])
   \<and> (apply_results istate l = Inr istate' \<and> untracked istate = Some u \<longrightarrow>
        (untracked istate' = Some (u\<lparr>use_fsmonitor := False\<rparr>)
           \<and> cache istate' = map clear_valid (cache istate))
        = (\<not> query_success l \<or> buf_at (query_result l) (bol l) = Some (CHR ''/'')))"
proof (intro conjI impI)
  show "fsmonitor_is_trivial_response buf = (\<exists>pre. buf = pre @ [NUL, CHR ''/'', NUL])"
    by (rule fsmonitor_is_trivial_response_iff)
  assume a: "apply_results istate l = Inr istate' \<and> untracked istate = Some u"
  show "(untracked istate' = Some (u\<lparr>use_fsmonitor := False\<rparr>)
           \<and> cache istate' = map clear_valid (cache istate))
        = (\<not> query_success l \<or> buf_at (query_result l) (bol l) = Some (CHR ''/''))"
  proof (cases "\<not> query_success l \<or> buf_at (query_result l) (bol l) = Some (CHR ''/'')")
    case True
    from apply_results_invalidate [OF this, of istate] a True show ?thesis
      by (auto simp: invalidate_all_eq)
  next
    case False
    then have qs: "query_success l" by simp
    from a qs obtain c where c: "buf_at (query_result l) (bol l) = Some c"
      by (auto simp: apply_results_def is_path_list_def split: option.splits)
    with False have ne: "c \<noteq> CHR ''/''" by auto
    from apply_results_path_list [OF qs c ne, of istate] a
    obtain s where s: "apply_paths istate (byte_before (query_result l) (bol l))
        (response_paths (query_result l) (bol l)) = Inr s"
      and u': "untracked istate' = map_option (\<lambda>u. u\<lparr>use_fsmonitor := True\<rparr>) (untracked s)"
      by (auto split: sum.splits)
    from apply_paths_frame [OF s] have "untracked s = untracked istate"
      by (metis index_state.select_convs(4) index_state.surjective index_state.update_convs(1)
          index_state.update_convs(8))
    with u' a have "untracked istate' = Some (u\<lparr>use_fsmonitor := True\<rparr>)" by simp
    moreover have "u\<lparr>use_fsmonitor := True\<rparr> \<noteq> u\<lparr>use_fsmonitor := False\<rparr>"
      by (metis untracked_cache.select_convs(1) untracked_cache.surjective
          untracked_cache.update_convs(1))
    ultimately show ?thesis using False by simp
  qed
qed

text \<open>
  Scenario S3 of the spec: the response ends with the marker and its path list starts
  with \<open>/\<close>.
\<close>

theorem trivial_response_branch_witness:
  "fsmonitor_is_trivial_response (''T1'' @ [NUL, CHR ''/'', NUL])
   \<and> apply_results (index_of [entry ''a'' True, entry ''b'' False] (Some ''T0''))
        (locals_v2 ''T1'' [CHR ''/'', NUL]) =
      Inr ((index_of [clear_valid (entry ''a'' True), clear_valid (entry ''b'' False)] (Some ''T1''))
             \<lparr>cache_changed := FSMONITOR_CHANGED\<rparr>)
   \<and> buf_at (query_result (locals_v2 ''T1'' [CHR ''/'', NUL]))
        (bol (locals_v2 ''T1'' [CHR ''/'', NUL])) = Some (CHR ''/'')"
proof -
  let ?i = "index_of [entry ''a'' True, entry ''b'' False] (Some ''T0'')"
  let ?l = "locals_v2 ''T1'' [CHR ''/'', NUL]"
  let ?s = "(index_of [clear_valid (entry ''a'' True), clear_valid (entry ''b'' False)] (Some ''T1''))
             \<lparr>cache_changed := FSMONITOR_CHANGED\<rparr>"
  have r: "apply_results ?i ?l = Inr ?s" by code_simp
  have u: "untracked ?i = Some \<lparr>use_fsmonitor = False\<rparr>" by (simp add: index_of_def)
  have "fsmonitor_is_trivial_response (''T1'' @ [NUL, CHR ''/'', NUL])"
    using trivial_response_branch [THEN conjunct1, of "''T1'' @ [NUL, CHR ''/'', NUL]"] by blast
  moreover have "buf_at (query_result ?l) (bol ?l) = Some (CHR ''/'')"
    using trivial_response_branch [THEN conjunct2, rule_format, of ?i ?l ?s "\<lparr>use_fsmonitor = False\<rparr>"] r u
    by (simp add: index_of_def locals_v2_def)
  ultimately show ?thesis using r by blast
qed

text \<open>
  The claim as written fails in both directions. A response whose path list is \<open>a\<close>
  followed by the marker is applied as a path list: \<open>b\<close> stays valid. A response whose
  path list is \<open>/b\<close> carries no marker and invalidates everything.
\<close>

theorem trivial_marker_counterexample:
  "fsmonitor_is_trivial_response (''T1'' @ NUL # ''a'' @ [NUL, CHR ''/'', NUL])
   \<and> refresh_fsmonitor (ipc_repo 0 (''T1'' @ NUL # ''a'' @ [NUL, CHR ''/'', NUL]))
        (index_of [entry ''a'' True, entry ''b'' True] (Some ''T0'')) =
      Inr ((index_of [clear_valid (entry ''a'' True), entry ''b'' True] (Some ''T1''))
             \<lparr>untracked := Some \<lparr>use_fsmonitor = True\<rparr>, fsmonitor_has_run_once := True,
               uc_invalidated := [''a'', []]\<rparr>)
   \<and> ce_valid (entry ''b'' True)
   \<and> \<not> fsmonitor_is_trivial_response (''T1'' @ NUL # ''/b'' @ [NUL])
   \<and> refresh_fsmonitor (ipc_repo 0 (''T1'' @ NUL # ''/b'' @ [NUL]))
        (index_of [entry ''a'' True, entry ''b'' True] (Some ''T0'')) =
      Inr ((index_of [clear_valid (entry ''a'' True), clear_valid (entry ''b'' True)] (Some ''T1''))
             \<lparr>cache_changed := FSMONITOR_CHANGED, fsmonitor_has_run_once := True\<rparr>)"
  by code_simp

section \<open>The query and the token\<close>

lemma apply_results_token:
  "apply_results istate l = Inr s \<Longrightarrow> fsmonitor_last_update s = Some (last_update_token l)"
  by (auto simp: apply_results_def split: sum.splits if_splits)

lemma apply_results_shape:
  assumes "apply_results istate l = Inr s'"
  shows "\<exists>s. (mark_paths istate (query_result l) (bol l) = Inr s \<or> s = invalidate_all istate)
           \<and> s' = s\<lparr>fsmonitor_last_update := Some (last_update_token l)\<rparr>"
  using assms by (auto simp: apply_results_def split: sum.splits if_splits)

lemma query_ipc_token:
  "last_update_token (query_ipc r istate) =
     (if fst (ipc_send_query r (case fsmonitor_last_update istate of
                                  Some t \<Rightarrow> t | None \<Rightarrow> ''builtin:fake'')) = 0
      then cstr (snd (ipc_send_query r (case fsmonitor_last_update istate of
                                          Some t \<Rightarrow> t | None \<Rightarrow> ''builtin:fake'')))
      else ''builtin:fake'')"
  by (simp add: query_ipc_def Let_def split: prod.splits)

lemma fsmonitor_hook_version_cases:
  "fsmonitor_hook_version r = - 1 \<or> fsmonitor_hook_version r = 1 \<or> fsmonitor_hook_version r = 2"
  by (auto simp: fsmonitor_hook_version_def HOOK_INTERFACE_VERSION1_def HOOK_INTERFACE_VERSION2_def
      split: option.splits)

lemma query_hook_no_prior:
  assumes "fsmonitor_last_update istate = None"
  shows "query_hook r istate =
     \<lparr>query_success = False, query_result = [], bol = 0,
      last_update_token = (if fsmonitor_hook_version r = 1 then dec (unat (getnanotime r)) else []),
      hook_version = fsmonitor_hook_version r, hook_calls = []\<rparr>"
  using assms by (simp add: query_hook_def Let_def HOOK_INTERFACE_VERSION1_def)

lemma query_hook_v1:
  assumes "fsmonitor_mode r = FSMONITOR_MODE_HOOK" and "fsmonitor_hook_version r = 1"
    and "fsmonitor_last_update istate = Some prior"
  shows "query_hook r istate =
     \<lparr>query_success = (fst (run_hook r 1 prior) = 0), query_result = snd (run_hook r 1 prior),
      bol = 0, last_update_token = dec (unat (getnanotime r)), hook_version = 1,
      hook_calls = [(1, prior)]\<rparr>"
  using assms
  by (simp add: query_hook_def query_hook_v1_def query_hook_v2_def query_fsmonitor_hook_def Let_def
      HOOK_INTERFACE_VERSION1_def HOOK_INTERFACE_VERSION2_def split: prod.splits)

lemma query_hook_v2_ok:
  assumes "fsmonitor_mode r = FSMONITOR_MODE_HOOK"
    and "fsmonitor_hook_version r = - 1 \<or> fsmonitor_hook_version r = 2"
    and "fsmonitor_last_update istate = Some prior"
    and "run_hook r 2 prior = (0, out)"
  shows "query_hook r istate =
     \<lparr>query_success = (cstr out \<noteq> []), query_result = out,
      bol = (if cstr out = [] then 0 else length (cstr out) + 1),
      last_update_token = cstr out, hook_version = 2, hook_calls = [(2, prior)]\<rparr>"
  using assms
  by (auto simp: query_hook_def query_hook_v1_def query_hook_v2_def query_fsmonitor_hook_def Let_def
      HOOK_INTERFACE_VERSION1_def HOOK_INTERFACE_VERSION2_def)

lemma query_hook_v2_pinned_failed:
  assumes "fsmonitor_mode r = FSMONITOR_MODE_HOOK" and "fsmonitor_hook_version r = 2"
    and "fsmonitor_last_update istate = Some prior"
    and "run_hook r 2 prior = (rc, out)" and "rc \<noteq> 0"
  shows "query_hook r istate =
     \<lparr>query_success = False, query_result = out, bol = 0, last_update_token = [],
      hook_version = 2, hook_calls = [(2, prior)]\<rparr>"
  using assms
  by (auto simp: query_hook_def query_hook_v1_def query_hook_v2_def query_fsmonitor_hook_def Let_def
      HOOK_INTERFACE_VERSION1_def HOOK_INTERFACE_VERSION2_def)

lemma query_hook_v2_fallback:
  assumes "fsmonitor_mode r = FSMONITOR_MODE_HOOK" and "fsmonitor_hook_version r = - 1"
    and "fsmonitor_last_update istate = Some prior"
    and "run_hook r 2 prior = (rc, out)" and "rc \<noteq> 0"
  shows "query_hook r istate =
     \<lparr>query_success = (fst (run_hook r 1 prior) = 0),
      query_result = out @ snd (run_hook r 1 prior), bol = 0,
      last_update_token = dec (unat (getnanotime r)),
      hook_version = 1, hook_calls = [(2, prior), (1, prior)]\<rparr>"
  using assms
  by (auto simp: query_hook_def query_hook_v1_def query_hook_v2_def query_fsmonitor_hook_def Let_def
      HOOK_INTERFACE_VERSION1_def HOOK_INTERFACE_VERSION2_def split: prod.splits)


lemma dec_nonempty: "dec n \<noteq> []"
  by (subst dec.simps) simp

lemma refresh_fsmonitor_runs:
  assumes "fsmonitor_mode r \<noteq> FSMONITOR_MODE_DISABLED" and "\<not> fsmonitor_has_run_once istate"
  shows "refresh_fsmonitor r istate =
           apply_results (istate\<lparr>fsmonitor_has_run_once := True\<rparr>)
             (if fsmonitor_mode r = FSMONITOR_MODE_IPC
              then query_ipc r (istate\<lparr>fsmonitor_has_run_once := True\<rparr>)
              else query_hook r (istate\<lparr>fsmonitor_has_run_once := True\<rparr>))"
  using assms by (simp add: refresh_fsmonitor_def Let_def)

text \<open>
  Claim C2, as the code has it. Hook mode, no usable \<^verbatim>\<open>core.fsmonitorhookversion\<close>, a prior
  token. When the version 2 hook exits with status 0 and its output starts with NUL (an
  empty token), the hook version has been set to 2 before the token is looked at: the
  query counts as failed, the hook is not started again, everything is invalidated and
  the empty string becomes the stored token. The second start with version argument 1,
  and the token from the clock read before the query, belong to the other failure: a
  version 2 hook that exits with a non-zero status.
\<close>

theorem hook_v2_empty_token:
  assumes "fsmonitor_mode r = FSMONITOR_MODE_HOOK" and "fsmonitor_hook_version r = - 1"
    and "fsmonitor_last_update istate = Some prior" and "\<not> fsmonitor_has_run_once istate"
    and "run_hook r 2 prior = (rc, out)"
  shows "(rc = 0 \<and> cstr out = [] \<longrightarrow>
            query_hook r (istate\<lparr>fsmonitor_has_run_once := True\<rparr>) =
              \<lparr>query_success = False, query_result = out, bol = 0, last_update_token = [],
               hook_version = 2, hook_calls = [(2, prior)]\<rparr>
            \<and> refresh_fsmonitor r istate =
                Inr ((invalidate_all (istate\<lparr>fsmonitor_has_run_once := True\<rparr>))
                       \<lparr>fsmonitor_last_update := Some []\<rparr>))
       \<and> (rc \<noteq> 0 \<longrightarrow>
            hook_calls (query_hook r (istate\<lparr>fsmonitor_has_run_once := True\<rparr>)) =
              [(2, prior), (1, prior)]
            \<and> last_update_token (query_hook r (istate\<lparr>fsmonitor_has_run_once := True\<rparr>)) =
                dec (unat (getnanotime r))
            \<and> (refresh_fsmonitor r istate = Inr istate' \<longrightarrow>
                 fsmonitor_last_update istate' = Some (dec (unat (getnanotime r)))))"
proof (intro conjI impI)
  let ?i1 = "istate\<lparr>fsmonitor_has_run_once := True\<rparr>"
  have prior: "fsmonitor_last_update ?i1 = Some prior" using assms(3) by simp
  have run: "refresh_fsmonitor r istate = apply_results ?i1 (query_hook r ?i1)"
    using refresh_fsmonitor_runs [of r istate] assms(1,4) by simp
  {
    assume a: "rc = 0 \<and> cstr out = []"
    then have h: "run_hook r 2 prior = (0, out)" using assms(5) by simp
    have "fsmonitor_hook_version r = - 1 \<or> fsmonitor_hook_version r = 2" using assms(2) by simp
    from query_hook_v2_ok [OF assms(1) this prior h] a
    show q: "query_hook r ?i1 =
        \<lparr>query_success = False, query_result = out, bol = 0, last_update_token = [],
         hook_version = 2, hook_calls = [(2, prior)]\<rparr>"
      by simp
    show "refresh_fsmonitor r istate =
        Inr ((invalidate_all ?i1)\<lparr>fsmonitor_last_update := Some []\<rparr>)"
      unfolding run q by (simp add: apply_results_invalidate)
  }
  {
    assume "rc \<noteq> 0"
    note q = query_hook_v2_fallback [OF assms(1,2) prior assms(5) this]
    show "hook_calls (query_hook r ?i1) = [(2, prior), (1, prior)]"
      "last_update_token (query_hook r ?i1) = dec (unat (getnanotime r))"
      by (simp_all add: q)
    show "fsmonitor_last_update istate' = Some (dec (unat (getnanotime r)))"
      if "refresh_fsmonitor r istate = Inr istate'"
      using that apply_results_token [of ?i1 "query_hook r ?i1" istate'] unfolding run
      by (simp add: q)
  }
qed

text \<open>
  A hook that answers version 2 with an empty token, and one that fails for version 2.
\<close>

theorem hook_v2_empty_token_witness:
  "query_hook (hook_repo None (\<lambda>v. (0, NUL # ''a'' @ [NUL])))
      ((index_of [entry ''a'' True, entry ''b'' False] (Some ''T0''))\<lparr>fsmonitor_has_run_once := True\<rparr>) =
     \<lparr>query_success = False, query_result = NUL # ''a'' @ [NUL], bol = 0, last_update_token = [],
      hook_version = 2, hook_calls = [(2, ''T0'')]\<rparr>
   \<and> refresh_fsmonitor (hook_repo None (\<lambda>v. (0, NUL # ''a'' @ [NUL])))
      (index_of [entry ''a'' True, entry ''b'' False] (Some ''T0'')) =
     Inr ((invalidate_all ((index_of [entry ''a'' True, entry ''b'' False] (Some ''T0''))
                             \<lparr>fsmonitor_has_run_once := True\<rparr>))
            \<lparr>fsmonitor_last_update := Some []\<rparr>)
   \<and> hook_calls (query_hook (hook_repo None (\<lambda>v. if v = 2 then (1, []) else (0, ''a'' @ [NUL])))
      ((index_of [entry ''a'' True, entry ''b'' False] (Some ''T0''))\<lparr>fsmonitor_has_run_once := True\<rparr>)) =
     [(2, ''T0''), (1, ''T0'')]
   \<and> last_update_token (query_hook (hook_repo None (\<lambda>v. if v = 2 then (1, []) else (0, ''a'' @ [NUL])))
      ((index_of [entry ''a'' True, entry ''b'' False] (Some ''T0''))\<lparr>fsmonitor_has_run_once := True\<rparr>)) =
     dec 1234"
proof -
  let ?i = "index_of [entry ''a'' True, entry ''b'' False] (Some ''T0'')"
  let ?r = "hook_repo None (\<lambda>v. (0, NUL # ''a'' @ [NUL]))"
  let ?r' = "hook_repo None (\<lambda>v. if v = 2 then (1, []) else (0, ''a'' @ [NUL]))"
  have h: "fsmonitor_mode ?r = FSMONITOR_MODE_HOOK" "fsmonitor_hook_version ?r = - 1"
    "fsmonitor_last_update ?i = Some ''T0''" "\<not> fsmonitor_has_run_once ?i"
    "run_hook ?r 2 ''T0'' = (0, NUL # ''a'' @ [NUL])"
    by (simp_all add: hook_repo_def fsmonitor_hook_version_def index_of_def)
  have h': "fsmonitor_mode ?r' = FSMONITOR_MODE_HOOK" "fsmonitor_hook_version ?r' = - 1"
    "fsmonitor_last_update ?i = Some ''T0''" "\<not> fsmonitor_has_run_once ?i"
    "run_hook ?r' 2 ''T0'' = (1, [])"
    by (simp_all add: hook_repo_def fsmonitor_hook_version_def index_of_def)
  have e: "cstr (NUL # ''a'' @ [NUL]) = []" by (simp add: cstr_def)
  have t: "unat (getnanotime ?r') = 1234" by (simp add: hook_repo_def)
  from hook_v2_empty_token [OF h, THEN conjunct1] e
    hook_v2_empty_token [OF h', THEN conjunct2] t
  show ?thesis by simp
qed

text \<open>
  The claim as written fails: with the empty token the hook is started once, with
  version argument 2, and the stored token is empty, not the clock value \<open>1234\<close>.
\<close>

theorem hook_v2_empty_token_counterexample:
  "hook_calls (query_hook (hook_repo None (\<lambda>v. (0, NUL # ''a'' @ [NUL])))
      ((index_of [entry ''a'' True, entry ''b'' False] (Some ''T0''))\<lparr>fsmonitor_has_run_once := True\<rparr>)) =
     [(2, ''T0'')]
   \<and> refresh_fsmonitor (hook_repo None (\<lambda>v. (0, NUL # ''a'' @ [NUL])))
      (index_of [entry ''a'' True, entry ''b'' False] (Some ''T0'')) =
     Inr ((index_of [clear_valid (entry ''a'' True), clear_valid (entry ''b'' False)] (Some []))
            \<lparr>cache_changed := FSMONITOR_CHANGED, fsmonitor_has_run_once := True\<rparr>)
   \<and> dec (unat (getnanotime (hook_repo None (\<lambda>v. (0, NUL # ''a'' @ [NUL]))))) = ''1234''"
  by code_simp

lemma hook_mode_cases:
  "fsmonitor_mode r \<noteq> FSMONITOR_MODE_DISABLED \<Longrightarrow> fsmonitor_mode r \<noteq> FSMONITOR_MODE_IPC \<Longrightarrow>
   fsmonitor_mode r = FSMONITOR_MODE_HOOK"
  by (cases "fsmonitor_mode r") simp_all

lemma query_hook_token:
  assumes "fsmonitor_mode r = FSMONITOR_MODE_HOOK"
  shows "last_update_token (query_hook r istate) =
     (if fsmonitor_hook_version r = 1 then dec (unat (getnanotime r))
      else case fsmonitor_last_update istate of
             None \<Rightarrow> []
           | Some prior \<Rightarrow>
               if fst (run_hook r 2 prior) = 0 then cstr (snd (run_hook r 2 prior))
               else if fsmonitor_hook_version r = 2 then []
               else dec (unat (getnanotime r)))"
proof (cases "fsmonitor_last_update istate")
  case None
  then show ?thesis by (simp add: query_hook_no_prior)
next
  case (Some prior)
  obtain rc out where h: "run_hook r 2 prior = (rc, out)" by (cases "run_hook r 2 prior")
  from fsmonitor_hook_version_cases [of r] show ?thesis
  proof (elim disjE)
    assume v: "fsmonitor_hook_version r = 1"
    show ?thesis using query_hook_v1 [OF assms v Some] v by simp
  next
    assume v: "fsmonitor_hook_version r = - 1"
    show ?thesis
    proof (cases "rc = 0")
      case True
      then have "run_hook r 2 prior = (0, out)" using h by simp
      from query_hook_v2_ok [OF assms _ Some this] v h True show ?thesis by (simp add: Some)
    next
      case False
      from query_hook_v2_fallback [OF assms v Some h False] v h False show ?thesis
        by (simp add: Some)
    qed
  next
    assume v: "fsmonitor_hook_version r = 2"
    show ?thesis
    proof (cases "rc = 0")
      case True
      then have "run_hook r 2 prior = (0, out)" using h by simp
      from query_hook_v2_ok [OF assms _ Some this] v h True show ?thesis by (simp add: Some)
    next
      case False
      from query_hook_v2_pinned_failed [OF assms v Some h False] v h False show ?thesis
        by (simp add: Some)
    qed
  qed
qed

text \<open>
  Claim C9, as the code has it. A refresh that runs (mode not \<open>DISABLED\<close>, not yet run
  in this session) and returns replaces the stored token, writing it into the index the
  path applications (or the invalidation) left behind; \<open>l\<close> stands for the local
  variables at the label \<open>apply_results\<close>. The new token is the token parsed from the
  response, the decimal form of the clock read before the query, \<open>builtin:fake\<close>, or the
  empty string, and which of them is fixed by the mode, the hook version, the prior token
  and the outcome of the query:
  \<^item> IPC: the parsed token when the query succeeded, \<open>builtin:fake\<close> when it failed;
  \<^item> hook version 1: the clock;
  \<^item> hook version 2 or unspecified, no prior token (no query is made): the empty string;
  \<^item> hook version 2 or unspecified, the version 2 hook exits with status 0: the parsed
    token;
  \<^item> hook version 2, the hook exits with another status: the empty string;
  \<^item> hook version unspecified, the version 2 hook exits with another status: the clock.

  So the empty string is stored exactly when no query was made for want of a prior token
  (version not 1), when the query failed with the version pinned to 2, or when a
  successful query returned an empty token.
\<close>

theorem stored_token_after_refresh:
  assumes "fsmonitor_mode r \<noteq> FSMONITOR_MODE_DISABLED" and "\<not> fsmonitor_has_run_once istate"
    and "refresh_fsmonitor r istate = Inr istate'"
    and "l = (if fsmonitor_mode r = FSMONITOR_MODE_IPC
              then query_ipc r (istate\<lparr>fsmonitor_has_run_once := True\<rparr>)
              else query_hook r (istate\<lparr>fsmonitor_has_run_once := True\<rparr>))"
    and "sent = (case fsmonitor_last_update istate of Some t \<Rightarrow> t | None \<Rightarrow> ''builtin:fake'')"
  shows "fsmonitor_last_update istate' \<in>
           {Some (parsed_token r istate), Some (dec (unat (getnanotime r))),
            Some ''builtin:fake'', Some []}
       \<and> (fsmonitor_mode r = FSMONITOR_MODE_IPC \<longrightarrow>
            fsmonitor_last_update istate' =
              Some (if fst (ipc_send_query r sent) = 0 then parsed_token r istate
                    else ''builtin:fake''))
       \<and> (fsmonitor_mode r = FSMONITOR_MODE_HOOK \<and> fsmonitor_hook_version r = 1 \<longrightarrow>
            fsmonitor_last_update istate' = Some (dec (unat (getnanotime r))))
       \<and> (fsmonitor_mode r = FSMONITOR_MODE_HOOK \<and> fsmonitor_hook_version r \<noteq> 1 \<and>
          fsmonitor_last_update istate = None \<longrightarrow>
            fsmonitor_last_update istate' = Some [])
       \<and> (fsmonitor_mode r = FSMONITOR_MODE_HOOK \<and> fsmonitor_hook_version r \<noteq> 1 \<and>
          fsmonitor_last_update istate = Some prior \<and> fst (run_hook r 2 prior) = 0 \<longrightarrow>
            fsmonitor_last_update istate' = Some (parsed_token r istate))
       \<and> (fsmonitor_mode r = FSMONITOR_MODE_HOOK \<and> fsmonitor_hook_version r = 2 \<and>
          fsmonitor_last_update istate = Some prior \<and> fst (run_hook r 2 prior) \<noteq> 0 \<longrightarrow>
            fsmonitor_last_update istate' = Some [])
       \<and> (fsmonitor_mode r = FSMONITOR_MODE_HOOK \<and> fsmonitor_hook_version r = - 1 \<and>
          fsmonitor_last_update istate = Some prior \<and> fst (run_hook r 2 prior) \<noteq> 0 \<longrightarrow>
            fsmonitor_last_update istate' = Some (dec (unat (getnanotime r))))
       \<and> (fsmonitor_last_update istate' = Some [] \<longleftrightarrow>
            (if fsmonitor_mode r = FSMONITOR_MODE_IPC
             then fst (ipc_send_query r sent) = 0 \<and> parsed_token r istate = []
             else fsmonitor_hook_version r \<noteq> 1 \<and>
                  (case fsmonitor_last_update istate of
                     None \<Rightarrow> True
                   | Some p \<Rightarrow> if fst (run_hook r 2 p) = 0 then parsed_token r istate = []
                               else fsmonitor_hook_version r = 2)))
       \<and> (\<exists>s. (if is_path_list l = Inr True
                then mark_paths (istate\<lparr>fsmonitor_has_run_once := True\<rparr>)
                       (query_result l) (bol l) = Inr s
                else s = invalidate_all (istate\<lparr>fsmonitor_has_run_once := True\<rparr>))
              \<and> istate' = s\<lparr>fsmonitor_last_update := Some (last_update_token l)\<rparr>)"
proof -
  let ?i1 = "istate\<lparr>fsmonitor_has_run_once := True\<rparr>"
  let ?t = "last_update_token l"
  have run: "apply_results ?i1 l = Inr istate'"
    using refresh_fsmonitor_runs [OF assms(1,2)] assms(3,4) by simp
  have tok: "fsmonitor_last_update istate' = Some ?t"
    using apply_results_token [OF run] .
  have ipc: "?t = (if fst (ipc_send_query r sent) = 0 then parsed_token r istate
                   else ''builtin:fake'')"
    if "fsmonitor_mode r = FSMONITOR_MODE_IPC"
    using that assms(4,5) by (simp add: query_ipc_token parsed_token_def)
  have hook: "?t = (if fsmonitor_hook_version r = 1 then dec (unat (getnanotime r))
      else case fsmonitor_last_update istate of
             None \<Rightarrow> []
           | Some prior \<Rightarrow>
               if fst (run_hook r 2 prior) = 0 then parsed_token r istate
               else if fsmonitor_hook_version r = 2 then []
               else dec (unat (getnanotime r)))"
    if "fsmonitor_mode r = FSMONITOR_MODE_HOOK"
    using that assms(4) query_hook_token [OF that, of ?i1]
    by (simp add: parsed_token_def split: option.splits)
  show ?thesis
  proof (intro conjI impI)
    show "fsmonitor_last_update istate' \<in>
           {Some (parsed_token r istate), Some (dec (unat (getnanotime r))),
            Some ''builtin:fake'', Some []}"
    proof (cases "fsmonitor_mode r = FSMONITOR_MODE_IPC")
      case True
      from ipc [OF this] show ?thesis unfolding tok by simp
    next
      case False
      from hook [OF hook_mode_cases [OF assms(1) this]] show ?thesis unfolding tok
        by (simp split: option.splits)
    qed
    show "fsmonitor_last_update istate' =
              Some (if fst (ipc_send_query r sent) = 0 then parsed_token r istate
                    else ''builtin:fake'')"
      if "fsmonitor_mode r = FSMONITOR_MODE_IPC"
      using ipc [OF that] unfolding tok by simp
    show "fsmonitor_last_update istate' = Some (dec (unat (getnanotime r)))"
      if "fsmonitor_mode r = FSMONITOR_MODE_HOOK \<and> fsmonitor_hook_version r = 1"
      using that hook unfolding tok by simp
    show "fsmonitor_last_update istate' = Some []"
      if "fsmonitor_mode r = FSMONITOR_MODE_HOOK \<and> fsmonitor_hook_version r \<noteq> 1 \<and>
          fsmonitor_last_update istate = None"
      using that hook unfolding tok by simp
    show "fsmonitor_last_update istate' = Some (parsed_token r istate)"
      if "fsmonitor_mode r = FSMONITOR_MODE_HOOK \<and> fsmonitor_hook_version r \<noteq> 1 \<and>
          fsmonitor_last_update istate = Some prior \<and> fst (run_hook r 2 prior) = 0"
      using that hook unfolding tok by simp
    show "fsmonitor_last_update istate' = Some []"
      if "fsmonitor_mode r = FSMONITOR_MODE_HOOK \<and> fsmonitor_hook_version r = 2 \<and>
          fsmonitor_last_update istate = Some prior \<and> fst (run_hook r 2 prior) \<noteq> 0"
      using that hook unfolding tok by simp
    show "fsmonitor_last_update istate' = Some (dec (unat (getnanotime r)))"
      if "fsmonitor_mode r = FSMONITOR_MODE_HOOK \<and> fsmonitor_hook_version r = - 1 \<and>
          fsmonitor_last_update istate = Some prior \<and> fst (run_hook r 2 prior) \<noteq> 0"
      using that hook unfolding tok by simp
    show "fsmonitor_last_update istate' = Some [] \<longleftrightarrow>
            (if fsmonitor_mode r = FSMONITOR_MODE_IPC
             then fst (ipc_send_query r sent) = 0 \<and> parsed_token r istate = []
             else fsmonitor_hook_version r \<noteq> 1 \<and>
                  (case fsmonitor_last_update istate of
                     None \<Rightarrow> True
                   | Some p \<Rightarrow> if fst (run_hook r 2 p) = 0 then parsed_token r istate = []
                               else fsmonitor_hook_version r = 2))"
    proof (cases "fsmonitor_mode r = FSMONITOR_MODE_IPC")
      case True
      from ipc [OF this] True show ?thesis unfolding tok by simp
    next
      case False
      from hook [OF hook_mode_cases [OF assms(1) this]] False show ?thesis unfolding tok
        by (simp add: dec_nonempty split: option.splits)
    qed
    show "\<exists>s. (if is_path_list l = Inr True
                then mark_paths ?i1 (query_result l) (bol l) = Inr s
                else s = invalidate_all ?i1)
              \<and> istate' = s\<lparr>fsmonitor_last_update := Some (last_update_token l)\<rparr>"
      using run by (auto simp: apply_results_def split: sum.splits if_splits)
  qed
qed

text \<open>
  Four runs on an index of three valid entries with prior token \<open>T0\<close> (none in the last
  run), the clock reading \<open>1234\<close>: scenario S1 of the spec (hook version 2, the hook
  reports \<open>b\<close> under the token \<open>T1\<close>); a daemon that cannot be reached; a hook of
  unspecified version that fails for version 2 and reports \<open>b\<close> for version 1; and a
  hook of unspecified version with no prior token.
\<close>

theorem stored_token_after_refresh_witness:
  "refresh_fsmonitor (hook_repo (Some 2) (\<lambda>v. (0, ''T1'' @ NUL # ''b'' @ [NUL])))
      (index_of [entry ''a'' True, entry ''b'' True, entry ''c'' True] (Some ''T0'')) =
     Inr ((index_of [entry ''a'' True, entry ''b'' False, entry ''c'' True] (Some ''T1''))
            \<lparr>untracked := Some \<lparr>use_fsmonitor = True\<rparr>, fsmonitor_has_run_once := True,
              uc_invalidated := [''b'']\<rparr>)
   \<and> fsmonitor_last_update
       ((index_of [entry ''a'' True, entry ''b'' False, entry ''c'' True] (Some ''T1''))
          \<lparr>untracked := Some \<lparr>use_fsmonitor = True\<rparr>, fsmonitor_has_run_once := True,
            uc_invalidated := [''b'']\<rparr>) =
     Some (parsed_token (hook_repo (Some 2) (\<lambda>v. (0, ''T1'' @ NUL # ''b'' @ [NUL])))
        (index_of [entry ''a'' True, entry ''b'' True, entry ''c'' True] (Some ''T0'')))
   \<and> refresh_fsmonitor (ipc_repo (- 1) [])
      (index_of [entry ''a'' True, entry ''b'' True, entry ''c'' True] (Some ''T0'')) =
     Inr ((index_of [entry ''a'' False, entry ''b'' False, entry ''c'' False] (Some ''builtin:fake''))
            \<lparr>cache_changed := FSMONITOR_CHANGED, fsmonitor_has_run_once := True\<rparr>)
   \<and> refresh_fsmonitor (hook_repo None (\<lambda>v. if v = 2 then (1, []) else (0, ''b'' @ [NUL])))
      (index_of [entry ''a'' True, entry ''b'' True, entry ''c'' True] (Some ''T0'')) =
     Inr ((index_of [entry ''a'' True, entry ''b'' False, entry ''c'' True] (Some ''1234''))
            \<lparr>untracked := Some \<lparr>use_fsmonitor = True\<rparr>, fsmonitor_has_run_once := True,
              uc_invalidated := [''b'']\<rparr>)
   \<and> fsmonitor_last_update
       ((index_of [entry ''a'' True, entry ''b'' False, entry ''c'' True] (Some ''1234''))
          \<lparr>untracked := Some \<lparr>use_fsmonitor = True\<rparr>, fsmonitor_has_run_once := True,
            uc_invalidated := [''b'']\<rparr>) =
     Some (dec (unat (getnanotime (hook_repo None (\<lambda>v. if v = 2 then (1, []) else (0, ''b'' @ [NUL]))))))
   \<and> refresh_fsmonitor (hook_repo None (\<lambda>v. (0, ''T1'' @ NUL # ''b'' @ [NUL])))
      (index_of [entry ''a'' True, entry ''b'' True, entry ''c'' True] None) =
     Inr ((index_of [entry ''a'' False, entry ''b'' False, entry ''c'' False] (Some []))
            \<lparr>cache_changed := FSMONITOR_CHANGED, fsmonitor_has_run_once := True\<rparr>)"
proof -
  let ?c = "[entry ''a'' True, entry ''b'' True, entry ''c'' True]"
  let ?i = "index_of ?c (Some ''T0'')"
  let ?marked = "\<lambda>t. (index_of [entry ''a'' True, entry ''b'' False, entry ''c'' True] (Some t))
            \<lparr>untracked := Some \<lparr>use_fsmonitor = True\<rparr>, fsmonitor_has_run_once := True,
              uc_invalidated := [''b'']\<rparr>"
  let ?all = "\<lambda>t. (index_of [entry ''a'' False, entry ''b'' False, entry ''c'' False] (Some t))
            \<lparr>cache_changed := FSMONITOR_CHANGED, fsmonitor_has_run_once := True\<rparr>"
  let ?r1 = "hook_repo (Some 2) (\<lambda>v. (0, ''T1'' @ NUL # ''b'' @ [NUL]))"
  let ?r2 = "ipc_repo (- 1) []"
  let ?r3 = "hook_repo None (\<lambda>v. if v = 2 then (1, []) else (0, ''b'' @ [NUL]))"
  let ?r4 = "hook_repo None (\<lambda>v. (0, ''T1'' @ NUL # ''b'' @ [NUL]))"
  have on: "fsmonitor_mode ?r1 \<noteq> FSMONITOR_MODE_DISABLED" "fsmonitor_mode ?r2 \<noteq> FSMONITOR_MODE_DISABLED"
    "fsmonitor_mode ?r3 \<noteq> FSMONITOR_MODE_DISABLED" "fsmonitor_mode ?r4 \<noteq> FSMONITOR_MODE_DISABLED"
    by (simp_all add: hook_repo_def ipc_repo_def)
  have fresh: "\<not> fsmonitor_has_run_once ?i" "\<not> fsmonitor_has_run_once (index_of ?c None)"
    by (simp_all add: index_of_def)
  have tok: "\<And>ces t. fsmonitor_last_update (index_of ces t) = t"
    by (simp add: index_of_def)
  have run1: "refresh_fsmonitor ?r1 ?i = Inr (?marked ''T1'')" by code_simp
  have run2: "refresh_fsmonitor ?r2 ?i = Inr (?all ''builtin:fake'')" by code_simp
  have run3: "refresh_fsmonitor ?r3 ?i = Inr (?marked ''1234'')" by code_simp
  have run4: "refresh_fsmonitor ?r4 (index_of ?c None) = Inr (?all [])" by code_simp
  have pre1: "fsmonitor_mode ?r1 = FSMONITOR_MODE_HOOK \<and> fsmonitor_hook_version ?r1 \<noteq> 1 \<and>
      fsmonitor_last_update ?i = Some ''T0'' \<and> fst (run_hook ?r1 2 ''T0'') = 0"
    by (simp add: fsmonitor_hook_version_def hook_repo_def HOOK_INTERFACE_VERSION2_def tok)
  have pre3: "fsmonitor_mode ?r3 = FSMONITOR_MODE_HOOK \<and> fsmonitor_hook_version ?r3 = - 1 \<and>
      fsmonitor_last_update ?i = Some ''T0'' \<and> fst (run_hook ?r3 2 ''T0'') \<noteq> 0"
    by (simp add: fsmonitor_hook_version_def hook_repo_def tok)
  note t1 = stored_token_after_refresh [OF on(1) fresh(1) run1 refl refl]
  note t3 = stored_token_after_refresh [OF on(3) fresh(1) run3 refl refl]
  from t1 [THEN conjunct2, THEN conjunct2, THEN conjunct2, THEN conjunct2, THEN conjunct1,
      THEN mp, OF pre1]
  have p1: "fsmonitor_last_update (?marked ''T1'') = Some (parsed_token ?r1 ?i)" .
  from t3 [THEN conjunct2, THEN conjunct2, THEN conjunct2, THEN conjunct2, THEN conjunct2,
      THEN conjunct2, THEN conjunct1, THEN mp, OF pre3]
  have p3: "fsmonitor_last_update (?marked ''1234'') = Some (dec (unat (getnanotime ?r3)))" .
  show ?thesis
    by (intro conjI run1 p1 run2 run3 p3 run4)
qed

text \<open>
  The claim as written fails: with the hook version pinned to 2 and a hook that exits
  with status 1, the stored token afterwards is the empty string; the output started
  with the token \<open>T9\<close> and the clock read \<open>1234\<close>.
\<close>

theorem stored_token_empty_counterexample:
  "refresh_fsmonitor (hook_repo (Some 2) (\<lambda>v. (1, ''T9'' @ [NUL])))
      (index_of [entry ''a'' True] (Some ''T0'')) =
     Inr ((index_of [clear_valid (entry ''a'' True)] (Some []))
            \<lparr>cache_changed := FSMONITOR_CHANGED, fsmonitor_has_run_once := True\<rparr>)
   \<and> parsed_token (hook_repo (Some 2) (\<lambda>v. (1, ''T9'' @ [NUL])))
        (index_of [entry ''a'' True] (Some ''T0'')) = ''T9''
   \<and> dec (unat (getnanotime (hook_repo (Some 2) (\<lambda>v. (1, ''T9'' @ [NUL]))))) = ''1234''"
  by code_simp

section \<open>Reconciling a restored bitmap\<close>

lemma length_clear_bits [simp]: "length (clear_bits b ces) = length ces"
  by (induction b ces rule: clear_bits.induct) simp_all

lemma clear_bits_nth:
  "i < length ces \<Longrightarrow>
   clear_bits b ces ! i = (if i < length b \<and> b ! i then clear_valid (ces ! i) else ces ! i)"
proof (induction b ces arbitrary: i rule: clear_bits.induct)
  case (3 b bs ce ces)
  then show ?case by (cases i) simp_all
qed simp_all

lemma ewah_each_bit_from_clears:
  assumes "pos + length b \<le> length (cache istate)"
  shows "ewah_each_bit_from pos b fsmonitor_ewah_callback istate =
           Inr (istate\<lparr>cache := take pos (cache istate) @ clear_bits b (drop pos (cache istate))\<rparr>)"
  using assms
proof (induction b arbitrary: pos istate)
  case Nil
  then show ?case by simp
next
  case (Cons x bs)
  let ?c = "cache istate"
  have pos: "pos < length ?c" using Cons.prems by simp
  have split: "drop pos ?c = ?c ! pos # drop (Suc pos) ?c"
    using pos by (simp add: Cons_nth_drop_Suc)
  show ?case
  proof (cases x)
    case False
    have "Suc pos + length bs \<le> length ?c" using Cons.prems by simp
    from Cons.IH [OF this] False show ?thesis
      by (simp add: split take_Suc_conv_app_nth [OF pos])
  next
    case True
    let ?s = "istate\<lparr>cache := ?c[pos := clear_valid (?c ! pos)]\<rparr>"
    have cb: "fsmonitor_ewah_callback pos istate = Inr ?s"
      using pos by (simp add: fsmonitor_ewah_callback_def assert_index_minimum_def cache_nr_def)
    have "Suc pos + length bs \<le> length (cache ?s)" using Cons.prems by simp
    from Cons.IH [OF this] True cb show ?thesis
      by (simp add: split take_Suc_conv_app_nth pos upd_conv_take_nth_drop)
  qed
qed

lemma ewah_each_bit_clears:
  assumes "bit_size b \<le> cache_nr istate"
  shows "ewah_each_bit b fsmonitor_ewah_callback istate =
           Inr (istate\<lparr>cache := clear_bits b (cache istate)\<rparr>)"
  using ewah_each_bit_from_clears [of 0 b istate] assms
  by (simp add: ewah_each_bit_def bit_size_def cache_nr_def)

lemma entries_only_cleared_map_clear [simp]:
  "entries_only_cleared ces (map clear_valid ces)"
  using entries_only_cleared_map [of ces "\<lambda>ce. True"] by simp

lemma apply_results_frame:
  assumes "apply_results istate l = Inr s"
  shows "entries_only_cleared (cache istate) (cache s)"
proof (cases "\<not> query_success l \<or> buf_at (query_result l) (bol l) = Some (CHR ''/'')")
  case True
  from apply_results_invalidate [OF this, of istate] assms show ?thesis
    by (auto simp: invalidate_all_eq)
next
  case False
  then have qs: "query_success l" by simp
  from assms qs obtain c where c: "buf_at (query_result l) (bol l) = Some c"
    by (auto simp: apply_results_def is_path_list_def split: option.splits)
  with False have ne: "c \<noteq> CHR ''/''" by auto
  from apply_results_path_list [OF qs c ne, of istate] assms
  obtain s0 where s0: "apply_paths istate (byte_before (query_result l) (bol l))
        (response_paths (query_result l) (bol l)) = Inr s0"
    and "cache s = cache s0"
    by (auto split: sum.splits)
  with apply_paths_frame [OF s0] show ?thesis by simp
qed

lemma refresh_fsmonitor_frame:
  assumes "refresh_fsmonitor r istate = Inr s"
  shows "entries_only_cleared (cache istate) (cache s)"
proof (cases "fsmonitor_mode r = FSMONITOR_MODE_DISABLED \<or> fsmonitor_has_run_once istate")
  case True
  then show ?thesis using assms by (auto simp: refresh_fsmonitor_def)
next
  case False
  then have "refresh_fsmonitor r istate =
      apply_results (istate\<lparr>fsmonitor_has_run_once := True\<rparr>)
        (if fsmonitor_mode r = FSMONITOR_MODE_IPC
         then query_ipc r (istate\<lparr>fsmonitor_has_run_once := True\<rparr>)
         else query_hook r (istate\<lparr>fsmonitor_has_run_once := True\<rparr>))"
    using refresh_fsmonitor_runs [of r istate] by simp
  with assms apply_results_frame show ?thesis
    by fastforce
qed

lemma add_fsmonitor_frame:
  assumes "add_fsmonitor r istate = Inr s"
  shows "entries_only_cleared (cache istate) (cache s)"
proof (cases "fsmonitor_last_update istate")
  case (Some t)
  then show ?thesis using assms by (simp add: add_fsmonitor_def)
next
  case None
  have step: "\<And>ces. entries_only_cleared (map clear_valid (cache istate)) ces \<Longrightarrow>
      entries_only_cleared (cache istate) ces"
    using entries_only_cleared_trans entries_only_cleared_map_clear by blast
  show ?thesis
    using assms None
    by (cases "untracked istate")
      (auto simp: add_fsmonitor_def initialize_fsmonitor_last_update_def add_untracked_cache_def
        Let_def dest!: refresh_fsmonitor_frame intro: step)
qed


lemma apply_results_dirty:
  assumes "apply_results istate l = Inr s"
  shows "fsmonitor_dirty s = fsmonitor_dirty istate"
proof (cases "\<not> query_success l \<or> buf_at (query_result l) (bol l) = Some (CHR ''/'')")
  case True
  from apply_results_invalidate [OF this, of istate] assms show ?thesis
    by (auto simp: invalidate_all_eq)
next
  case False
  then have qs: "query_success l" by simp
  from assms qs obtain c where c: "buf_at (query_result l) (bol l) = Some c"
    by (auto simp: apply_results_def is_path_list_def split: option.splits)
  with False have ne: "c \<noteq> CHR ''/''" by auto
  from apply_results_path_list [OF qs c ne, of istate] assms
  obtain s0 where s0: "apply_paths istate (byte_before (query_result l) (bol l))
        (response_paths (query_result l) (bol l)) = Inr s0"
    and "fsmonitor_dirty s = fsmonitor_dirty s0"
    by (auto split: sum.splits)
  moreover from apply_paths_frame [OF s0] have "fsmonitor_dirty s0 = fsmonitor_dirty istate"
    by (metis index_state.select_convs(6) index_state.surjective index_state.update_convs(1)
        index_state.update_convs(8))
  ultimately show ?thesis by simp
qed

lemma refresh_fsmonitor_dirty:
  assumes "refresh_fsmonitor r istate = Inr s"
  shows "fsmonitor_dirty s = fsmonitor_dirty istate"
proof (cases "fsmonitor_mode r = FSMONITOR_MODE_DISABLED \<or> fsmonitor_has_run_once istate")
  case True
  then show ?thesis using assms by (auto simp: refresh_fsmonitor_def)
next
  case False
  then have "refresh_fsmonitor r istate =
      apply_results (istate\<lparr>fsmonitor_has_run_once := True\<rparr>)
        (if fsmonitor_mode r = FSMONITOR_MODE_IPC
         then query_ipc r (istate\<lparr>fsmonitor_has_run_once := True\<rparr>)
         else query_hook r (istate\<lparr>fsmonitor_has_run_once := True\<rparr>))"
    using refresh_fsmonitor_runs [of r istate] by simp
  with assms apply_results_dirty show ?thesis
    by fastforce
qed

lemma add_fsmonitor_dirty:
  assumes "add_fsmonitor r istate = Inr s"
  shows "fsmonitor_dirty s = fsmonitor_dirty istate"
  using assms
  by (cases "fsmonitor_last_update istate"; cases "untracked istate")
    (auto simp: add_fsmonitor_def initialize_fsmonitor_last_update_def add_untracked_cache_def
      Let_def dest!: refresh_fsmonitor_dirty)

lemma tweak_dirty_enabled:
  assumes "fsmonitor_mode r \<noteq> FSMONITOR_MODE_DISABLED"
  shows "tweak_dirty r istate B =
     (if cache_nr istate < bit_size B then Inl BUG_more_entries
      else case refresh_fsmonitor r
                  (istate\<lparr>cache := clear_bits B (map set_valid (cache istate))\<rparr>) of
             Inl e \<Rightarrow> Inl e
           | Inr s \<Rightarrow> Inr (s\<lparr>fsmonitor_dirty := None\<rparr>))"
proof (cases "cache_nr istate < bit_size B")
  case True
  then show ?thesis
    using assms by (simp add: tweak_dirty_def assert_index_minimum_def cache_nr_def Let_def)
next
  case False
  let ?i1 = "istate\<lparr>cache := map set_valid (cache istate)\<rparr>"
  have "bit_size B \<le> cache_nr ?i1" using False by (simp add: cache_nr_def)
  from ewah_each_bit_clears [OF this] False assms show ?thesis
    by (simp add: tweak_dirty_def assert_index_minimum_def cache_nr_def Let_def)
qed

lemma clear_after_set:
  "(f OR CE_FSMONITOR_VALID) AND NOT CE_FSMONITOR_VALID = f AND NOT CE_FSMONITOR_VALID"
  by (simp add: bit.conj_disj_distrib2)

lemma reconciled_entry:
  assumes "i < length ces"
  shows "clear_bits B (map set_valid ces) ! i =
     (ces ! i)\<lparr>ce_flags :=
        (if i \<in> ewah_bits B then ce_flags (ces ! i) AND NOT CE_FSMONITOR_VALID
         else ce_flags (ces ! i) OR CE_FSMONITOR_VALID)\<rparr>"
  using assms
  by (simp add: clear_bits_nth ewah_bits_def clear_valid_def set_valid_def clear_after_set)

lemma reconciled_valid:
  assumes "i < length ces"
  shows "ce_valid (clear_bits B (map set_valid ces) ! i) = (i \<notin> ewah_bits B)"
  using assms by (simp add: clear_bits_nth ewah_bits_def)

text \<open>
  Claim C8. With a restored bitmap \<open>B\<close> and the subsystem enabled, \<open>tweak_fsmonitor\<close>
  first sets \<open>CE_FSMONITOR_VALID\<close> on every entry, then clears it at the positions of
  \<open>B\<close>, then runs the refresh engine: the index handed to the refresh has the flag word
  \<open>f OR CE_FSMONITOR_VALID\<close> at a position outside \<open>B\<close> and \<open>f AND NOT CE_FSMONITOR_VALID\<close> at
  a position of \<open>B\<close>, where \<open>f\<close> is the flag word before, so an entry is valid there
  exactly when its position is not in \<open>B\<close>. A bitmap with more bits than the index has
  entries aborts with \<open>BUG\<close>. Whenever \<open>tweak_fsmonitor\<close> returns, every position set in \<open>B\<close>
  is an entry without \<open>CE_FSMONITOR_VALID\<close>; when the refresh has already run in this
  session and a token is stored, the entries are left exactly as they were handed to the
  refresh. With the subsystem disabled the bitmap is dropped and no entry is touched.
\<close>

theorem tweak_fsmonitor_reconcile:
  assumes "fsmonitor_dirty istate = Some B"
    and "marked = clear_bits B (map set_valid (cache istate))"
  shows "(fsmonitor_mode r \<noteq> FSMONITOR_MODE_DISABLED \<and> bit_size B \<le> cache_nr istate \<longrightarrow>
            tweak_dirty r istate B =
              (case refresh_fsmonitor r (istate\<lparr>cache := marked\<rparr>) of
                 Inl e \<Rightarrow> Inl e
               | Inr s \<Rightarrow> Inr (s\<lparr>fsmonitor_dirty := None\<rparr>)))
       \<and> length marked = length (cache istate)
       \<and> (\<forall>i < length (cache istate).
            marked ! i =
              (cache istate ! i)\<lparr>ce_flags :=
                 (if i \<in> ewah_bits B then ce_flags (cache istate ! i) AND NOT CE_FSMONITOR_VALID
                  else ce_flags (cache istate ! i) OR CE_FSMONITOR_VALID)\<rparr>
            \<and> ce_valid (marked ! i) = (i \<notin> ewah_bits B))
       \<and> (fsmonitor_mode r \<noteq> FSMONITOR_MODE_DISABLED \<and> cache_nr istate < bit_size B \<longrightarrow>
            tweak_fsmonitor r istate = Inl BUG_more_entries)
       \<and> (fsmonitor_mode r \<noteq> FSMONITOR_MODE_DISABLED \<and> tweak_fsmonitor r istate = Inr istate' \<longrightarrow>
            length (cache istate') = length (cache istate)
            \<and> fsmonitor_dirty istate' = None
            \<and> (\<forall>i \<in> ewah_bits B. i < length (cache istate') \<and> \<not> ce_valid (cache istate' ! i))
            \<and> (\<forall>i < length (cache istate).
                  cache istate' ! i = marked ! i \<or> cache istate' ! i = clear_valid (marked ! i)))
       \<and> (fsmonitor_mode r \<noteq> FSMONITOR_MODE_DISABLED \<and> bit_size B \<le> cache_nr istate \<and>
          fsmonitor_has_run_once istate \<and> fsmonitor_last_update istate \<noteq> None \<longrightarrow>
            tweak_fsmonitor r istate = Inr (istate\<lparr>cache := marked, fsmonitor_dirty := None\<rparr>))
       \<and> (fsmonitor_mode r = FSMONITOR_MODE_DISABLED \<longrightarrow>
            tweak_fsmonitor r istate = Inr (remove_fsmonitor (istate\<lparr>fsmonitor_dirty := None\<rparr>))
            \<and> cache (remove_fsmonitor (istate\<lparr>fsmonitor_dirty := None\<rparr>)) = cache istate
            \<and> fsmonitor_dirty (remove_fsmonitor (istate\<lparr>fsmonitor_dirty := None\<rparr>)) = None)"
proof (intro conjI impI ballI allI)
  show "tweak_dirty r istate B =
      (case refresh_fsmonitor r (istate\<lparr>cache := marked\<rparr>) of
         Inl e \<Rightarrow> Inl e
       | Inr s \<Rightarrow> Inr (s\<lparr>fsmonitor_dirty := None\<rparr>))"
    if "fsmonitor_mode r \<noteq> FSMONITOR_MODE_DISABLED \<and> bit_size B \<le> cache_nr istate"
    using that tweak_dirty_enabled [of r istate B] assms(2) by simp
  show "length marked = length (cache istate)"
    by (simp add: assms(2))
  show "marked ! i =
      (cache istate ! i)\<lparr>ce_flags :=
         (if i \<in> ewah_bits B then ce_flags (cache istate ! i) AND NOT CE_FSMONITOR_VALID
          else ce_flags (cache istate ! i) OR CE_FSMONITOR_VALID)\<rparr>"
    if "i < length (cache istate)" for i
    unfolding assms(2) using that by (rule reconciled_entry)
  show "ce_valid (marked ! i) = (i \<notin> ewah_bits B)" if "i < length (cache istate)" for i
    unfolding assms(2) using that by (rule reconciled_valid)
  show "tweak_fsmonitor r istate = Inl BUG_more_entries"
    if "fsmonitor_mode r \<noteq> FSMONITOR_MODE_DISABLED \<and> cache_nr istate < bit_size B"
    using that tweak_dirty_enabled [of r istate B] assms(1) by (simp add: tweak_fsmonitor_def)
  show "tweak_fsmonitor r istate = Inr (remove_fsmonitor (istate\<lparr>fsmonitor_dirty := None\<rparr>))"
    "cache (remove_fsmonitor (istate\<lparr>fsmonitor_dirty := None\<rparr>)) = cache istate"
    "fsmonitor_dirty (remove_fsmonitor (istate\<lparr>fsmonitor_dirty := None\<rparr>)) = None"
    if "fsmonitor_mode r = FSMONITOR_MODE_DISABLED"
    using that assms(1)
    by (simp_all add: tweak_fsmonitor_def tweak_dirty_def remove_fsmonitor_def split: option.splits)
  show "tweak_fsmonitor r istate = Inr (istate\<lparr>cache := marked, fsmonitor_dirty := None\<rparr>)"
    if "fsmonitor_mode r \<noteq> FSMONITOR_MODE_DISABLED \<and> bit_size B \<le> cache_nr istate \<and>
        fsmonitor_has_run_once istate \<and> fsmonitor_last_update istate \<noteq> None"
    using that tweak_dirty_enabled [of r istate B] assms
    by (auto simp: tweak_fsmonitor_def refresh_fsmonitor_def add_fsmonitor_def)
next
  assume en: "fsmonitor_mode r \<noteq> FSMONITOR_MODE_DISABLED \<and> tweak_fsmonitor r istate = Inr istate'"
  let ?i2 = "istate\<lparr>cache := marked\<rparr>"
  from en assms(1) obtain s1 where s1: "tweak_dirty r istate B = Inr s1"
    and add: "add_fsmonitor r s1 = Inr istate'"
    by (auto simp: tweak_fsmonitor_def split: sum.splits)
  from s1 en tweak_dirty_enabled [of r istate B]
  have fit: "bit_size B \<le> cache_nr istate"
    by (auto split: if_splits)
  with s1 en tweak_dirty_enabled [of r istate B]
  obtain s0 where s0: "refresh_fsmonitor r ?i2 = Inr s0" and s1_eq: "s1 = s0\<lparr>fsmonitor_dirty := None\<rparr>"
    by (auto simp: assms(2) split: sum.splits if_splits)
  have "entries_only_cleared (cache ?i2) (cache s1)"
    using refresh_fsmonitor_frame [OF s0] by (simp add: s1_eq)
  with add_fsmonitor_frame [OF add]
  have oc: "entries_only_cleared marked (cache istate')"
    using entries_only_cleared_trans by fastforce
  from entries_only_cleared_length [OF oc]
  show len: "length (cache istate') = length (cache istate)" by (simp add: assms(2))
  show "fsmonitor_dirty istate' = None"
    using add_fsmonitor_dirty [OF add] by (simp add: s1_eq)
  {
    fix i
    assume il: "i < length (cache istate)"
    then have "i < length marked" by (simp add: assms(2))
    with oc show "cache istate' ! i = marked ! i \<or> cache istate' ! i = clear_valid (marked ! i)"
      by (auto simp: entries_only_cleared_def list_all2_conv_all_nth)
  }
  note each = this
  fix i
  assume "i \<in> ewah_bits B"
  then have i: "i < length B" "B ! i" by (simp_all add: ewah_bits_def)
  with fit have il: "i < length (cache istate)" by (simp add: bit_size_def cache_nr_def)
  then show "i < length (cache istate')" using len by simp
  have "\<not> ce_valid (marked ! i)"
    unfolding assms(2) using reconciled_valid [OF il, of B] \<open>i \<in> ewah_bits B\<close> by simp
  with each [OF il] show "\<not> ce_valid (cache istate' ! i)"
    by auto
qed

text \<open>
  An index of three entries, none of them valid, with bit 1 restored. Before the refresh
  \<open>a\<close> and \<open>c\<close> are valid and \<open>b\<close> is not; a daemon that reports \<open>c\<close> leaves only \<open>a\<close> valid. The
  same index when the refresh has already run; a bitmap of four bits; and the subsystem
  disabled.
\<close>

theorem tweak_fsmonitor_reconcile_witness:
  "clear_bits [False, True] (map set_valid [entry ''a'' False, entry ''b'' False, entry ''c'' False]) =
     [entry ''a'' True, entry ''b'' False, entry ''c'' True]
   \<and> tweak_fsmonitor (ipc_repo 0 (''T1'' @ NUL # ''c'' @ [NUL])) (restored_index [False, True]) =
     Inr ((index_of [entry ''a'' True, entry ''b'' False, entry ''c'' False] (Some ''T1''))
            \<lparr>untracked := Some \<lparr>use_fsmonitor = True\<rparr>, fsmonitor_has_run_once := True,
              uc_invalidated := [''c'']\<rparr>)
   \<and> ce_valid (entry ''a'' True)
   \<and> 1 \<in> ewah_bits [False, True]
   \<and> \<not> ce_valid (entry ''b'' False)
   \<and> tweak_fsmonitor (ipc_repo 0 (''T1'' @ NUL # ''c'' @ [NUL]))
        ((restored_index [False, True])\<lparr>fsmonitor_has_run_once := True\<rparr>) =
     Inr ((index_of [entry ''a'' True, entry ''b'' False, entry ''c'' True] (Some ''T0''))
            \<lparr>fsmonitor_has_run_once := True\<rparr>)
   \<and> tweak_fsmonitor (ipc_repo 0 []) (restored_index [False, True, False, True]) =
     Inl BUG_more_entries
   \<and> tweak_fsmonitor ((ipc_repo 0 [])\<lparr>fsmonitor_mode := FSMONITOR_MODE_DISABLED\<rparr>)
        (restored_index [False, True]) =
     Inr ((index_of [entry ''a'' False, entry ''b'' False, entry ''c'' False] None)
            \<lparr>cache_changed := FSMONITOR_CHANGED\<rparr>)"
proof -
  let ?r = "ipc_repo 0 (''T1'' @ NUL # ''c'' @ [NUL])"
  let ?off = "(ipc_repo 0 [])\<lparr>fsmonitor_mode := FSMONITOR_MODE_DISABLED\<rparr>"
  let ?c = "[entry ''a'' False, entry ''b'' False, entry ''c'' False]"
  let ?m = "[entry ''a'' True, entry ''b'' False, entry ''c'' True]"
  let ?x = "(index_of [entry ''a'' True, entry ''b'' False, entry ''c'' False] (Some ''T1''))
            \<lparr>untracked := Some \<lparr>use_fsmonitor = True\<rparr>, fsmonitor_has_run_once := True,
              uc_invalidated := [''c'']\<rparr>"
  let ?ran = "(restored_index [False, True])\<lparr>fsmonitor_has_run_once := True\<rparr>"
  have d: "\<And>b. fsmonitor_dirty (restored_index b) = Some b"
    "fsmonitor_dirty ?ran = Some [False, True]"
    by (simp_all add: restored_index_def)
  have marked: "clear_bits [False, True] (map set_valid ?c) = ?m" by code_simp
  have sv: "set_valid (entry ''a'' False) = entry ''a'' True"
    "clear_valid (set_valid (entry ''b'' False)) = entry ''b'' False"
    "set_valid (entry ''c'' False) = entry ''c'' True"
    using marked by simp_all
  have run: "tweak_fsmonitor ?r (restored_index [False, True]) = Inr ?x" by code_simp
  have m: "fsmonitor_mode ?r \<noteq> FSMONITOR_MODE_DISABLED"
    "fsmonitor_mode (ipc_repo 0 []) \<noteq> FSMONITOR_MODE_DISABLED"
    "fsmonitor_mode ?off = FSMONITOR_MODE_DISABLED"
    by (simp_all add: ipc_repo_def)
  have one: "1 \<in> ewah_bits [False, True]" by (simp add: ewah_bits_def)
  note t = tweak_fsmonitor_reconcile [OF d(1) refl]
  note t' = tweak_fsmonitor_reconcile [OF d(2) refl]
  from t [THEN conjunct2, THEN conjunct2, THEN conjunct2, THEN conjunct2, THEN conjunct1,
      rule_format, of ?r "[False, True]" ?x] m run one
  have nb: "\<not> ce_valid (entry ''b'' False)"
    by (auto simp: index_of_def)
  have "ce_valid (clear_bits [False, True] (map set_valid (cache (restored_index [False, True]))) ! 0) =
      (0 \<notin> ewah_bits [False, True])"
    by (rule t [THEN conjunct2, THEN conjunct2, THEN conjunct1, rule_format, THEN conjunct2])
      (simp add: restored_index_def index_of_def)
  then have va: "ce_valid (entry ''a'' True)"
    by (simp add: restored_index_def index_of_def sv ewah_bits_def)
  from t' [THEN conjunct2, THEN conjunct2, THEN conjunct2, THEN conjunct2, THEN conjunct2,
      THEN conjunct1, rule_format, of ?r] m
  have ran: "tweak_fsmonitor ?r ?ran =
      Inr ((index_of ?m (Some ''T0''))\<lparr>fsmonitor_has_run_once := True\<rparr>)"
    by (simp add: sv restored_index_def index_of_def cache_nr_def bit_size_def)
  from t [THEN conjunct2, THEN conjunct2, THEN conjunct2, THEN conjunct1, rule_format,
      of "ipc_repo 0 []" "[False, True, False, True]"] m
  have bug: "tweak_fsmonitor (ipc_repo 0 []) (restored_index [False, True, False, True]) =
      Inl BUG_more_entries"
    by (simp add: restored_index_def index_of_def cache_nr_def bit_size_def)
  from t [THEN conjunct2, THEN conjunct2, THEN conjunct2, THEN conjunct2, THEN conjunct2,
      THEN conjunct2, rule_format, of ?off "[False, True]"] m
  have off: "tweak_fsmonitor ?off (restored_index [False, True]) =
      Inr ((index_of ?c None)\<lparr>cache_changed := FSMONITOR_CHANGED\<rparr>)"
    by (simp add: restored_index_def index_of_def remove_fsmonitor_def)
  show ?thesis
    by (intro conjI marked run va one nb ran bug off)
qed

end
